theory Spec2Isabelle
  imports Main
begin

section \<open>Data model of batch-fetch\<close>

text \<open>
  The repository holds two variants of one module (\<open>src/index.ts\<close>): the first debounces
  for 500 ms, the second for 1000 ms. Definitions of the first variant keep the source's
  names; a definition of the second variant that differs from the first carries the
  suffix \<open>2\<close>. \<open>unegisterRequest\<close> and \<open>dispatchRequest\<close> are the same in both.

  The module runs on the browser's single-threaded event loop. Every turn of the loop
  (a call of \<open>batchFetch\<close>, a timer that fires, a \<open>fetch\<close> that settles, a caller's
  signal that aborts) is a function from state to state. The state holds the four
  module-level tables of the source and the part of the browser the module talks to.
\<close>

text \<open>A JavaScript error value: its \<open>name\<close> and its \<open>message\<close>.\<close>

datatype jserror = JSError (ename: string) (emessage: string)

definition abortError :: jserror where
  \<comment> \<open>the \<open>DOMException\<close> an aborted \<open>fetch\<close> rejects with\<close>
  "abortError = JSError ''AbortError'' ''signal is aborted without reason''"

definition typeError :: jserror where
  \<comment> \<open>reading a property of \<open>undefined\<close>\<close>
  "typeError = JSError ''TypeError'' ''Cannot read properties of undefined''"

text \<open>
  \<open>RequestInit\<close>: the caller's \<open>signal\<close> (an \<open>AbortSignal\<close>, named by a number) and every
  other field, kept abstract in \<open>'p\<close>. The source splits it the same way:
  \<open>const { signal, ...otherOptions } = options\<close>.
\<close>

record 'p RequestInit =
  signal :: "nat option"
  otherOptions :: 'p

record 'p RequestPayload =
  url :: string
  options :: 'p

record RequestCounter =
  registered :: nat
  aborted :: nat
  processed :: nat

datatype itemType = Registered | Aborted | Processed

fun getItem :: "itemType \<Rightarrow> RequestCounter \<Rightarrow> nat" where
  "getItem Registered c = registered c"
| "getItem Aborted c = aborted c"
| "getItem Processed c = processed c"

fun bumpItem :: "itemType \<Rightarrow> RequestCounter \<Rightarrow> RequestCounter" where
  "bumpItem Registered c = c\<lparr>registered := registered c + 1\<rparr>"
| "bumpItem Aborted c = c\<lparr>aborted := aborted c + 1\<rparr>"
| "bumpItem Processed c = c\<lparr>processed := processed c + 1\<rparr>"

text \<open>What a settled \<open>fetch\<close> yields, and the state of a promise handed to a caller.\<close>

datatype 'r outcome = Response 'r | Failure jserror

datatype 'r promise = Pending | Resolved 'r | Rejected jserror

text \<open>A timer made by \<open>setTimeout\<close>; the id \<open>setTimeout\<close> returns is its position plus one,
  so ids are positive (truthy), as in a browser.\<close>

record timer =
  deadline :: nat
  batch :: string
  armed :: bool

text \<open>The \<open>signal\<close> a \<open>fetch\<close> was given, and where its result goes: to the two callbacks
  of \<open>dispatchRequest\<close> for a batch, or straight to the promise \<open>batchFetch\<close> returned.\<close>

datatype sigref = NoSignal | CallerSignal nat | BatchSignal nat

datatype sink = ToBatch string | ToPromise nat

record 'p fetchCall =
  f_url :: string
  f_options :: "'p option"
  f_signal :: sigref
  f_sink :: sink
  f_done :: bool

record ('p, 'r) state =
  requestPayload :: "string \<rightharpoonup> 'p RequestPayload"
  requestCounter :: "string \<rightharpoonup> RequestCounter"
  requestDebounce :: "string \<rightharpoonup> nat"
  requestSignals :: "string \<rightharpoonup> nat"
  now :: nat
  timers :: "timer list"
  controllers :: "bool list"
  signals :: "nat \<rightharpoonup> jserror"
  fetches :: "'p fetchCall list"
  thenListeners :: "(nat \<times> string) list"
  catchListeners :: "(nat \<times> string) list"
  abortListeners :: "(nat \<times> nat \<times> string) list"
  promises :: "'r promise list"
  uncaught :: "jserror list"

text \<open>
  \<^item> \<open>requestSignals\<close> maps a batch to its \<open>AbortController\<close>, a position in
    \<open>controllers\<close>, whose entry says whether \<open>abort()\<close> was called on it;
  \<^item> \<open>signals\<close> holds the callers' signals that have aborted, with their reason;
  \<^item> \<open>fetches\<close> is the log of every call of \<open>fetch\<close>;
  \<^item> a listener on \<open>window\<close> is the pair of the promise whose executor made it and the
    \<open>batchId\<close> it closes over; an abort listener adds the signal it is attached to;
  \<^item> \<open>uncaught\<close> collects what is thrown to the caller of \<open>batchFetch\<close> or out of a
    listener (the event loop reports it and goes on).
\<close>

definition init :: "('p, 'r) state" where
  "init = \<lparr>requestPayload = Map.empty, requestCounter = Map.empty,
     requestDebounce = Map.empty, requestSignals = Map.empty, now = 0, timers = [],
     controllers = [], signals = Map.empty, fetches = [], thenListeners = [],
     catchListeners = [], abortListeners = [], promises = [], uncaught = []\<rparr>"

section \<open>The browser primitives the module calls\<close>

definition setTimeout :: "string \<Rightarrow> nat \<Rightarrow> ('p, 'r) state \<Rightarrow> nat \<times> ('p, 'r) state" where
  "setTimeout b delay s =
     (length (timers s) + 1,
      s\<lparr>timers := timers s @ [\<lparr>deadline = now s + delay, batch = b, armed = True\<rparr>]\<rparr>)"

definition clearTimeout :: "nat \<Rightarrow> ('p, 'r) state \<Rightarrow> ('p, 'r) state" where
  "clearTimeout t s =
     (if 0 < t \<and> t \<le> length (timers s)
      then s\<lparr>timers := (timers s)[t - 1 := (timers s ! (t - 1))\<lparr>armed := False\<rparr>]\<rparr>
      else s)"

definition fetch :: "string \<Rightarrow> 'p option \<Rightarrow> sigref \<Rightarrow> sink \<Rightarrow> ('p, 'r) state \<Rightarrow> ('p, 'r) state" where
  "fetch u opts sg k s =
     s\<lparr>fetches := fetches s @
        [\<lparr>f_url = u, f_options = opts, f_signal = sg, f_sink = k, f_done = False\<rparr>]\<rparr>"

definition abortController :: "nat \<Rightarrow> ('p, 'r) state \<Rightarrow> ('p, 'r) state" where
  "abortController c s =
     (if c < length (controllers s) then s\<lparr>controllers := (controllers s)[c := True]\<rparr> else s)"

text \<open>Settling a promise a second time does nothing.\<close>

definition resolve :: "nat \<Rightarrow> 'r \<Rightarrow> ('p, 'r) state \<Rightarrow> ('p, 'r) state" where
  "resolve p r s =
     (if p < length (promises s) \<and> promises s ! p = Pending
      then s\<lparr>promises := (promises s)[p := Resolved r]\<rparr> else s)"

definition reject :: "nat \<Rightarrow> jserror \<Rightarrow> ('p, 'r) state \<Rightarrow> ('p, 'r) state" where
  "reject p e s =
     (if p < length (promises s) \<and> promises s ! p = Pending
      then s\<lparr>promises := (promises s)[p := Rejected e]\<rparr> else s)"

definition removeThen :: "nat \<Rightarrow> string \<Rightarrow> ('p, 'r) state \<Rightarrow> ('p, 'r) state" where
  "removeThen p b s = s\<lparr>thenListeners := removeAll (p, b) (thenListeners s)\<rparr>"

definition removeCatch :: "nat \<Rightarrow> string \<Rightarrow> ('p, 'r) state \<Rightarrow> ('p, 'r) state" where
  "removeCatch p b s = s\<lparr>catchListeners := removeAll (p, b) (catchListeners s)\<rparr>"

section \<open>The module, first variant (500 ms)\<close>

definition incrementRequestCounter ::
  "string \<Rightarrow> itemType \<Rightarrow> ('p, 'r) state \<Rightarrow> jserror + ('p, 'r) state" where
  "incrementRequestCounter batchId item s =
     (case requestCounter s batchId of
        None \<Rightarrow> Inl typeError
      | Some c \<Rightarrow> Inr (s\<lparr>requestCounter := (requestCounter s)(batchId \<mapsto> bumpItem item c)\<rparr>))"

definition isRequestCounterMax :: "string \<Rightarrow> itemType \<Rightarrow> ('p, 'r) state \<Rightarrow> bool" where
  "isRequestCounterMax batchId item s =
     (case requestCounter s batchId of
        None \<Rightarrow> False
      | Some c \<Rightarrow> if registered c = 0 then False else registered c = getItem item c)"

definition unegisterRequest :: "string \<Rightarrow> ('p, 'r) state \<Rightarrow> ('p, 'r) state" where
  "unegisterRequest batchId s =
     s\<lparr>requestPayload := (requestPayload s)(batchId := None),
       requestCounter := (requestCounter s)(batchId := None),
       requestDebounce := (requestDebounce s)(batchId := None),
       requestSignals := (requestSignals s)(batchId := None)\<rparr>"

definition dispatchRequest :: "string \<Rightarrow> ('p, 'r) state \<Rightarrow> ('p, 'r) state" where
  "dispatchRequest batchId s =
     (let c = length (controllers s);
          s1 = s\<lparr>controllers := controllers s @ [False],
                 requestSignals := (requestSignals s)(batchId \<mapsto> c)\<rparr>
      in fetch (case requestPayload s1 batchId of None \<Rightarrow> [] | Some p \<Rightarrow> url p)
               (map_option options (requestPayload s1 batchId))
               (BatchSignal c) (ToBatch batchId) s1)"

definition debounceRequest :: "string \<Rightarrow> ('p, 'r) state \<Rightarrow> ('p, 'r) state" where
  "debounceRequest batchId s =
     (let s1 = (case requestDebounce s batchId of None \<Rightarrow> s | Some t \<Rightarrow> clearTimeout t s);
          (t', s2) = setTimeout batchId 500 s1
      in s2\<lparr>requestDebounce := (requestDebounce s2)(batchId \<mapsto> t')\<rparr>)"

definition registerRequest ::
  "string \<Rightarrow> string \<Rightarrow> 'p \<Rightarrow> ('p, 'r) state \<Rightarrow> jserror + ('p, 'r) state" where
  "registerRequest batchId u opts s =
     (let s1 = (if requestPayload s batchId = None
                then s\<lparr>requestPayload := (requestPayload s)(batchId \<mapsto> \<lparr>url = u, options = opts\<rparr>)\<rparr>
                else s);
          s2 = (if requestCounter s1 batchId = None
                then s1\<lparr>requestCounter := (requestCounter s1)
                          (batchId \<mapsto> \<lparr>registered = 0, aborted = 0, processed = 0\<rparr>)\<rparr>
                else s1)
      in case incrementRequestCounter batchId Registered s2 of
           Inl e \<Rightarrow> Inl e
         | Inr s3 \<Rightarrow> Inr (debounceRequest batchId s3))"

text \<open>The three listeners a call of \<open>batchFetch\<close> makes. The event's \<open>detail\<close> has the one
  key \<open>b\<close>, so \<open>event.detail?.[batchId]\<close> is defined exactly when \<open>batchId = b\<close>.\<close>

definition onBatchFetchThen ::
  "nat \<Rightarrow> string \<Rightarrow> string \<times> 'r \<Rightarrow> ('p, 'r) state \<Rightarrow> ('p, 'r) state" where
  "onBatchFetchThen p batchId ev s =
     (if fst ev = batchId then
        (let s1 = removeThen p batchId s in
         case incrementRequestCounter batchId Processed s1 of
           Inl e \<Rightarrow> s1\<lparr>uncaught := uncaught s1 @ [e]\<rparr>
         | Inr s2 \<Rightarrow>
             resolve p (snd ev)
               (if isRequestCounterMax batchId Processed s2 then unegisterRequest batchId s2 else s2))
      else s)"

definition onBatchFetchCatch ::
  "nat \<Rightarrow> string \<Rightarrow> string \<times> jserror \<Rightarrow> ('p, 'r) state \<Rightarrow> ('p, 'r) state" where
  "onBatchFetchCatch p batchId ev s =
     (if fst ev = batchId then
        (let s1 = removeCatch p batchId s in
         case incrementRequestCounter batchId Processed s1 of
           Inl e \<Rightarrow> s1\<lparr>uncaught := uncaught s1 @ [e]\<rparr>
         | Inr s2 \<Rightarrow>
             reject p (snd ev)
               (if isRequestCounterMax batchId Processed s2 then unegisterRequest batchId s2 else s2))
      else s)"

definition onAbort :: "nat \<Rightarrow> string \<Rightarrow> jserror \<Rightarrow> ('p, 'r) state \<Rightarrow> ('p, 'r) state" where
  "onAbort p batchId reason s =
     (let s1 = removeCatch p batchId (removeThen p batchId s) in
      case incrementRequestCounter batchId Aborted s1 of
        Inl e \<Rightarrow> s1\<lparr>uncaught := uncaught s1 @ [e]\<rparr>
      | Inr s2 \<Rightarrow>
          reject p reason
            (if isRequestCounterMax batchId Aborted s2 then
               (let s3 = (case requestDebounce s2 batchId of None \<Rightarrow> s2 | Some t \<Rightarrow> clearTimeout t s2);
                    s4 = (case requestSignals s3 batchId of None \<Rightarrow> s3 | Some c \<Rightarrow> abortController c s3)
                in unegisterRequest batchId s4)
             else s2))"

definition batchFetch ::
  "(string \<Rightarrow> string \<Rightarrow> 'p \<Rightarrow> string) \<Rightarrow> string \<Rightarrow> 'p RequestInit \<Rightarrow> ('p, 'r) state
     \<Rightarrow> jserror + nat \<times> ('p, 'r) state" where
  "batchFetch hash u opts s =
     (let batchId = hash ''otherOptions'' u (otherOptions opts) in
      if requestSignals s batchId \<noteq> None then
        (let p = length (promises s)
         in Inr (p, fetch u (Some (otherOptions opts))
                      (case signal opts of None \<Rightarrow> NoSignal | Some g \<Rightarrow> CallerSignal g)
                      (ToPromise p) (s\<lparr>promises := promises s @ [Pending]\<rparr>)))
      else
        (case registerRequest batchId u (otherOptions opts) s of
           Inl e \<Rightarrow> Inl e
         | Inr s1 \<Rightarrow>
             (let p = length (promises s1);
                  s2 = s1\<lparr>promises := promises s1 @ [Pending],
                          thenListeners := thenListeners s1 @ [(p, batchId)],
                          catchListeners := catchListeners s1 @ [(p, batchId)]\<rparr>
              in Inr (p, case signal opts of
                           None \<Rightarrow> s2
                         | Some g \<Rightarrow> s2\<lparr>abortListeners := abortListeners s2 @ [(g, p, batchId)]\<rparr>))))"

section \<open>The module, second variant (1000 ms)\<close>

text \<open>The second variant has no \<open>incrementRequestCounter\<close> and no \<open>isRequestCounterMax\<close>:
  it writes the counters in place and compares them with \<open>===\<close> behind \<open>?.\<close>, which
  yields \<open>undefined\<close> on both sides when the entry is missing.\<close>

definition counterEq :: "itemType \<Rightarrow> string \<Rightarrow> ('p, 'r) state \<Rightarrow> bool" where
  "counterEq item batchId s =
     (map_option (getItem item) (requestCounter s batchId)
        = map_option registered (requestCounter s batchId))"

definition debounceRequest2 :: "string \<Rightarrow> ('p, 'r) state \<Rightarrow> ('p, 'r) state" where
  "debounceRequest2 batchId s =
     (let s1 = (case requestDebounce s batchId of None \<Rightarrow> s | Some t \<Rightarrow> clearTimeout t s);
          (t', s2) = setTimeout batchId 1000 s1
      in s2\<lparr>requestDebounce := (requestDebounce s2)(batchId \<mapsto> t')\<rparr>)"

definition registerRequest2 ::
  "(string \<Rightarrow> string \<Rightarrow> 'p \<Rightarrow> string) \<Rightarrow> string \<Rightarrow> 'p \<Rightarrow> ('p, 'r) state
     \<Rightarrow> jserror + string \<times> ('p, 'r) state" where
  "registerRequest2 hash u opts s =
     (let batchId = hash ''options'' u opts in
      if requestSignals s batchId \<noteq> None then
        Inl (JSError ''Error'' ''Request already dispatched'')
      else
        (let s1 = (if requestPayload s batchId = None
                   then s\<lparr>requestPayload := (requestPayload s)(batchId \<mapsto> \<lparr>url = u, options = opts\<rparr>)\<rparr>
                   else s);
             s2 = (if requestCounter s1 batchId = None
                   then s1\<lparr>requestCounter := (requestCounter s1)
                             (batchId \<mapsto> \<lparr>registered = 0, aborted = 0, processed = 0\<rparr>)\<rparr>
                   else s1)
         in case requestCounter s2 batchId of
              None \<Rightarrow> Inl typeError
            | Some c \<Rightarrow>
                Inr (batchId,
                     debounceRequest2 batchId
                       (s2\<lparr>requestCounter := (requestCounter s2)
                              (batchId \<mapsto> c\<lparr>registered := registered c + 1\<rparr>)\<rparr>))))"

definition onBatchFetchThen2 ::
  "nat \<Rightarrow> string \<Rightarrow> string \<times> 'r \<Rightarrow> ('p, 'r) state \<Rightarrow> ('p, 'r) state" where
  "onBatchFetchThen2 p batchId ev s =
     (if fst ev = batchId then
        (let s1 = removeThen p batchId s in
         case requestCounter s1 batchId of
           None \<Rightarrow> s1\<lparr>uncaught := uncaught s1 @ [typeError]\<rparr>
         | Some c \<Rightarrow>
             (let s2 = s1\<lparr>requestCounter := (requestCounter s1)
                            (batchId \<mapsto> c\<lparr>processed := processed c + 1\<rparr>)\<rparr>
              in resolve p (snd ev)
                   (if counterEq Processed batchId s2 then unegisterRequest batchId s2 else s2)))
      else s)"

definition onBatchFetchCatch2 ::
  "nat \<Rightarrow> string \<Rightarrow> string \<times> jserror \<Rightarrow> ('p, 'r) state \<Rightarrow> ('p, 'r) state" where
  "onBatchFetchCatch2 p batchId ev s =
     (if fst ev = batchId then
        (let s1 = removeCatch p batchId s in
         case requestCounter s1 batchId of
           None \<Rightarrow> s1\<lparr>uncaught := uncaught s1 @ [typeError]\<rparr>
         | Some c \<Rightarrow>
             (let s2 = s1\<lparr>requestCounter := (requestCounter s1)
                            (batchId \<mapsto> c\<lparr>processed := processed c + 1\<rparr>)\<rparr>
              in reject p (snd ev)
                   (if counterEq Processed batchId s2 then unegisterRequest batchId s2 else s2)))
      else s)"

definition onAbort2 :: "nat \<Rightarrow> string \<Rightarrow> jserror \<Rightarrow> ('p, 'r) state \<Rightarrow> ('p, 'r) state" where
  "onAbort2 p batchId reason s =
     (let s1 = removeCatch p batchId (removeThen p batchId s) in
      case requestCounter s1 batchId of
        None \<Rightarrow> s1\<lparr>uncaught := uncaught s1 @ [typeError]\<rparr>
      | Some c \<Rightarrow>
          (let s2 = s1\<lparr>requestCounter := (requestCounter s1)(batchId \<mapsto> c\<lparr>aborted := 1\<rparr>)\<rparr>
           in reject p reason
                (if counterEq Aborted batchId s2 then
                   (let s3 = (case requestSignals s2 batchId of None \<Rightarrow> s2 | Some k \<Rightarrow> abortController k s2);
                        s4 = (case requestDebounce s3 batchId of None \<Rightarrow> s3 | Some t \<Rightarrow> clearTimeout t s3)
                    in unegisterRequest batchId s4)
                 else s2)))"

definition batchFetch2 ::
  "(string \<Rightarrow> string \<Rightarrow> 'p \<Rightarrow> string) \<Rightarrow> string \<Rightarrow> 'p RequestInit \<Rightarrow> ('p, 'r) state
     \<Rightarrow> jserror + nat \<times> ('p, 'r) state" where
  "batchFetch2 hash u opts s =
     (case registerRequest2 hash u (otherOptions opts) s of
        Inl e \<Rightarrow> Inl e
      | Inr (batchId, s1) \<Rightarrow>
          (let p = length (promises s1);
               s2 = s1\<lparr>promises := promises s1 @ [Pending],
                       thenListeners := thenListeners s1 @ [(p, batchId)],
                       catchListeners := catchListeners s1 @ [(p, batchId)]\<rparr>
           in Inr (p, case signal opts of
                        None \<Rightarrow> s2
                      | Some g \<Rightarrow> s2\<lparr>abortListeners := abortListeners s2 @ [(g, p, batchId)]\<rparr>)))"

section \<open>The event loop\<close>

text \<open>
  \<open>window.dispatchEvent\<close> calls the listeners attached when it starts, in the order they
  were attached, skipping one that was removed meanwhile. An abort event does the same
  for the listeners of one signal; they were added with \<open>once\<close>, so they are detached
  before they run, and a signal aborts once only.
\<close>

fun runThen :: "(nat \<times> string) list \<Rightarrow> string \<times> 'r \<Rightarrow> ('p, 'r) state \<Rightarrow> ('p, 'r) state" where
  "runThen [] ev s = s"
| "runThen ((p, b) # ls) ev s =
     runThen ls ev (if (p, b) \<in> set (thenListeners s) then onBatchFetchThen p b ev s else s)"

fun runCatch :: "(nat \<times> string) list \<Rightarrow> string \<times> jserror \<Rightarrow> ('p, 'r) state \<Rightarrow> ('p, 'r) state" where
  "runCatch [] ev s = s"
| "runCatch ((p, b) # ls) ev s =
     runCatch ls ev (if (p, b) \<in> set (catchListeners s) then onBatchFetchCatch p b ev s else s)"

fun runAbort :: "(nat \<times> nat \<times> string) list \<Rightarrow> jserror \<Rightarrow> ('p, 'r) state \<Rightarrow> ('p, 'r) state" where
  "runAbort [] e s = s"
| "runAbort ((g, p, b) # ls) e s = runAbort ls e (onAbort p b e s)"

fun runThen2 :: "(nat \<times> string) list \<Rightarrow> string \<times> 'r \<Rightarrow> ('p, 'r) state \<Rightarrow> ('p, 'r) state" where
  "runThen2 [] ev s = s"
| "runThen2 ((p, b) # ls) ev s =
     runThen2 ls ev (if (p, b) \<in> set (thenListeners s) then onBatchFetchThen2 p b ev s else s)"

fun runCatch2 :: "(nat \<times> string) list \<Rightarrow> string \<times> jserror \<Rightarrow> ('p, 'r) state \<Rightarrow> ('p, 'r) state" where
  "runCatch2 [] ev s = s"
| "runCatch2 ((p, b) # ls) ev s =
     runCatch2 ls ev (if (p, b) \<in> set (catchListeners s) then onBatchFetchCatch2 p b ev s else s)"

fun runAbort2 :: "(nat \<times> nat \<times> string) list \<Rightarrow> jserror \<Rightarrow> ('p, 'r) state \<Rightarrow> ('p, 'r) state" where
  "runAbort2 [] e s = s"
| "runAbort2 ((g, p, b) # ls) e s = runAbort2 ls e (onAbort2 p b e s)"

text \<open>The two callbacks \<open>dispatchRequest\<close> chains on its \<open>fetch\<close>: \<open>.then\<close> broadcasts the
  response, \<open>.catch\<close> broadcasts the error unless its name is \<open>AbortError\<close>.\<close>

definition dispatchRequest_settled :: "string \<Rightarrow> 'r outcome \<Rightarrow> ('p, 'r) state \<Rightarrow> ('p, 'r) state" where
  "dispatchRequest_settled batchId out s =
     (case out of
        Response r \<Rightarrow> runThen (thenListeners s) (batchId, r) s
      | Failure e \<Rightarrow>
          if ename e \<noteq> ''AbortError'' then runCatch (catchListeners s) (batchId, e) s else s)"

definition dispatchRequest_settled2 :: "string \<Rightarrow> 'r outcome \<Rightarrow> ('p, 'r) state \<Rightarrow> ('p, 'r) state" where
  "dispatchRequest_settled2 batchId out s =
     (case out of
        Response r \<Rightarrow> runThen2 (thenListeners s) (batchId, r) s
      | Failure e \<Rightarrow>
          if ename e \<noteq> ''AbortError'' then runCatch2 (catchListeners s) (batchId, e) s else s)"

text \<open>What \<open>fetch\<close> settles with: the abort of its signal wins over what the network
  gave (\<open>out\<close>). A caller's signal rejects with its reason, the batch's controller is
  aborted without a reason.\<close>

definition fetchResult :: "'p fetchCall \<Rightarrow> 'r outcome \<Rightarrow> ('p, 'r) state \<Rightarrow> 'r outcome" where
  "fetchResult f out s =
     (case f_signal f of
        NoSignal \<Rightarrow> out
      | CallerSignal g \<Rightarrow> (case signals s g of None \<Rightarrow> out | Some e \<Rightarrow> Failure e)
      | BatchSignal c \<Rightarrow>
          if c < length (controllers s) \<and> controllers s ! c then Failure abortError else out)"

definition toPromise :: "nat \<Rightarrow> 'r outcome \<Rightarrow> ('p, 'r) state \<Rightarrow> ('p, 'r) state" where
  "toPromise p out s = (case out of Response r \<Rightarrow> resolve p r s | Failure e \<Rightarrow> reject p e s)"

definition settleFetch :: "nat \<Rightarrow> 'r outcome \<Rightarrow> ('p, 'r) state \<Rightarrow> ('p, 'r) state option" where
  "settleFetch i out s =
     (if i < length (fetches s) \<and> \<not> f_done (fetches s ! i) then
        (let f = fetches s ! i;
             s1 = s\<lparr>fetches := (fetches s)[i := f\<lparr>f_done := True\<rparr>]\<rparr>
         in Some (case f_sink f of
                    ToBatch b \<Rightarrow> dispatchRequest_settled b (fetchResult f out s) s1
                  | ToPromise p \<Rightarrow> toPromise p (fetchResult f out s) s1))
      else None)"

definition settleFetch2 :: "nat \<Rightarrow> 'r outcome \<Rightarrow> ('p, 'r) state \<Rightarrow> ('p, 'r) state option" where
  "settleFetch2 i out s =
     (if i < length (fetches s) \<and> \<not> f_done (fetches s ! i) then
        (let f = fetches s ! i;
             s1 = s\<lparr>fetches := (fetches s)[i := f\<lparr>f_done := True\<rparr>]\<rparr>
         in Some (case f_sink f of
                    ToBatch b \<Rightarrow> dispatchRequest_settled2 b (fetchResult f out s) s1
                  | ToPromise p \<Rightarrow> toPromise p (fetchResult f out s) s1))
      else None)"

text \<open>A timer fires only while it is armed and not before its deadline, and is no longer
  armed once it has fired; its callback is \<open>dispatchRequest(batchId)\<close> in both variants.\<close>

definition fireTimer :: "nat \<Rightarrow> ('p, 'r) state \<Rightarrow> ('p, 'r) state option" where
  "fireTimer t s =
     (if 0 < t \<and> t \<le> length (timers s) \<and> armed (timers s ! (t - 1))
          \<and> deadline (timers s ! (t - 1)) \<le> now s
      then Some (dispatchRequest (batch (timers s ! (t - 1))) (clearTimeout t s))
      else None)"

definition abortSignal :: "nat \<Rightarrow> jserror \<Rightarrow> ('p, 'r) state \<Rightarrow> ('p, 'r) state" where
  "abortSignal g e s =
     (if signals s g \<noteq> None then s
      else runAbort (filter (\<lambda>x. fst x = g) (abortListeners s)) e
             (s\<lparr>signals := (signals s)(g \<mapsto> e),
                abortListeners := filter (\<lambda>x. fst x \<noteq> g) (abortListeners s)\<rparr>))"

definition abortSignal2 :: "nat \<Rightarrow> jserror \<Rightarrow> ('p, 'r) state \<Rightarrow> ('p, 'r) state" where
  "abortSignal2 g e s =
     (if signals s g \<noteq> None then s
      else runAbort2 (filter (\<lambda>x. fst x = g) (abortListeners s)) e
             (s\<lparr>signals := (signals s)(g \<mapsto> e),
                abortListeners := filter (\<lambda>x. fst x \<noteq> g) (abortListeners s)\<rparr>))"

text \<open>One turn of the event loop, and a run of turns. A turn that cannot happen (a timer
  that is not due, a \<open>fetch\<close> that is not in flight) gives \<open>None\<close>.\<close>

datatype ('p, 'r) event =
    Call string "'p RequestInit"
  | Advance nat
  | TimerFire nat
  | Settle nat "'r outcome"
  | Abort nat jserror

definition called :: "jserror + nat \<times> ('p, 'r) state \<Rightarrow> ('p, 'r) state \<Rightarrow> ('p, 'r) state" where
  "called res s = (case res of Inl e \<Rightarrow> s\<lparr>uncaught := uncaught s @ [e]\<rparr> | Inr (p, s') \<Rightarrow> s')"

fun step :: "(string \<Rightarrow> string \<Rightarrow> 'p \<Rightarrow> string) \<Rightarrow> ('p, 'r) event \<Rightarrow> ('p, 'r) state
    \<Rightarrow> ('p, 'r) state option" where
  "step hash (Call u opts) s = Some (called (batchFetch hash u opts s) s)"
| "step hash (Advance d) s = Some (s\<lparr>now := now s + d\<rparr>)"
| "step hash (TimerFire t) s = fireTimer t s"
| "step hash (Settle i out) s = settleFetch i out s"
| "step hash (Abort g e) s = Some (abortSignal g e s)"

fun step2 :: "(string \<Rightarrow> string \<Rightarrow> 'p \<Rightarrow> string) \<Rightarrow> ('p, 'r) event \<Rightarrow> ('p, 'r) state
    \<Rightarrow> ('p, 'r) state option" where
  "step2 hash (Call u opts) s = Some (called (batchFetch2 hash u opts s) s)"
| "step2 hash (Advance d) s = Some (s\<lparr>now := now s + d\<rparr>)"
| "step2 hash (TimerFire t) s = fireTimer t s"
| "step2 hash (Settle i out) s = settleFetch2 i out s"
| "step2 hash (Abort g e) s = Some (abortSignal2 g e s)"

fun run :: "(string \<Rightarrow> string \<Rightarrow> 'p \<Rightarrow> string) \<Rightarrow> ('p, 'r) event list \<Rightarrow> ('p, 'r) state
    \<Rightarrow> ('p, 'r) state option" where
  "run hash [] s = Some s"
| "run hash (e # es) s = (case step hash e s of None \<Rightarrow> None | Some s' \<Rightarrow> run hash es s')"

fun run2 :: "(string \<Rightarrow> string \<Rightarrow> 'p \<Rightarrow> string) \<Rightarrow> ('p, 'r) event list \<Rightarrow> ('p, 'r) state
    \<Rightarrow> ('p, 'r) state option" where
  "run2 hash [] s = Some s"
| "run2 hash (e # es) s = (case step2 hash e s of None \<Rightarrow> None | Some s' \<Rightarrow> run2 hash es s')"

section \<open>Concrete runs\<close>

text \<open>\<open>object-hash\<close> is a library outside the repository; the module only applies it, so it
  is a parameter of \<open>batchFetch\<close>. Its first argument is the name of the second key of
  the object hashed (\<open>{url, otherOptions}\<close> in the first variant, \<open>{url, options}\<close> in
  the second). Concrete runs need some function in its place: this one writes the key,
  the url and the options out.\<close>

definition demoHash :: "string \<Rightarrow> string \<Rightarrow> string \<Rightarrow> string" where
  "demoHash k u p = k @ '':'' @ u @ '':'' @ p"

definition get :: "string RequestInit" where
  "get = \<lparr>signal = None, otherOptions = ''GET''\<rparr>"

definition getWith :: "nat \<Rightarrow> string RequestInit" where
  "getWith g = \<lparr>signal = Some g, otherOptions = ''GET''\<rparr>"

text \<open>One caller, whose batch has been dispatched and is in flight (either variant).\<close>

definition dispatched :: "(string, nat) state" where
  "dispatched = the (run demoHash [Call ''/a'' get, Advance 500, TimerFire 1] init)"

definition dispatched2 :: "(string, nat) state" where
  "dispatched2 = the (run2 demoHash [Call ''/a'' get, Advance 1000, TimerFire 1] init)"

text \<open>One caller that cancels while its batch is in flight: the cancellation is escalated.\<close>

definition escalated :: "(string, nat) state" where
  "escalated =
     the (run demoHash [Call ''/a'' (getWith 0), Advance 500, TimerFire 1, Abort 0 abortError] init)"

text \<open>One caller whose batch has settled with a response and has been unregistered.\<close>

definition retired :: "(string, nat) state" where
  "retired =
     the (run demoHash [Call ''/a'' (getWith 0), Advance 500, TimerFire 1, Settle 0 (Response 7)] init)"

section \<open>Notions used in the statements and proofs\<close>

text \<open>What the promise of a caller holds once an outcome has been delivered to it
  (\<open>resolve(response.clone())\<close> or \<open>reject(error)\<close>).\<close>

definition delivered :: "'r outcome \<Rightarrow> 'r promise" where
  "delivered out = (case out of Response r \<Rightarrow> Resolved r | Failure e \<Rightarrow> Rejected e)"

text \<open>A burst of calls of one url and one set of options: each caller waits \<open>d\<close> ms after
  the one before and brings its own signal (or none).\<close>

definition joins :: "string \<Rightarrow> 'p \<Rightarrow> (nat \<times> nat option) list \<Rightarrow> ('p, 'r) event list" where
  "joins u p cs = concat (map (\<lambda>c. [Advance (fst c), Call u \<lparr>signal = snd c, otherOptions = p\<rparr>]) cs)"

text \<open>Signals that abort one after the other, each with its reason.\<close>

definition cancels :: "(nat \<times> jserror) list \<Rightarrow> ('p, 'r) event list" where
  "cancels ks = map (\<lambda>k. Abort (fst k) (snd k)) ks"

text \<open>The batch \<open>b\<close> is waiting: \<open>n\<close> callers registered, \<open>a\<close> of them have cancelled, none
  has been served, and the callers in \<open>L\<close>, whose promises are pending, are exactly those
  that listen for \<open>b\<close> on both events.\<close>

definition waiting :: "string \<Rightarrow> nat \<Rightarrow> nat \<Rightarrow> nat list \<Rightarrow> ('p, 'r) state \<Rightarrow> bool" where
  "waiting b n a L s \<longleftrightarrow>
     requestCounter s b = Some \<lparr>registered = n, aborted = a, processed = 0\<rparr>
     \<and> a + length L = n \<and> distinct L
     \<and> filter (\<lambda>x. snd x = b) (thenListeners s) = map (\<lambda>p. (p, b)) L
     \<and> filter (\<lambda>x. snd x = b) (catchListeners s) = map (\<lambda>p. (p, b)) L
     \<and> (\<forall>p\<in>set L. p < length (promises s) \<and> promises s ! p = Pending)"

text \<open>The part of the state a cancellation that is not escalated leaves alone.\<close>

definition frame :: "('p, 'r) state \<Rightarrow> ('p, 'r) state \<Rightarrow> bool" where
  "frame s s' \<longleftrightarrow>
     timers s' = timers s \<and> now s' = now s \<and> controllers s' = controllers s
     \<and> fetches s' = fetches s \<and> requestPayload s' = requestPayload s
     \<and> requestDebounce s' = requestDebounce s \<and> requestSignals s' = requestSignals s
     \<and> uncaught s' = uncaught s"

section \<open>Properties\<close>

lemmas prim_defs = setTimeout_def clearTimeout_def fetch_def abortController_def resolve_def
  reject_def removeThen_def removeCatch_def

lemmas v1_defs = incrementRequestCounter_def isRequestCounterMax_def unegisterRequest_def
  dispatchRequest_def debounceRequest_def registerRequest_def onBatchFetchThen_def
  onBatchFetchCatch_def onAbort_def batchFetch_def


subsection \<open>What a joining call does to the state\<close>

lemma join_effect:
  assumes "requestSignals s b = None" and "b = hash ''otherOptions'' u (otherOptions opts)"
  shows "\<exists>s'. batchFetch hash u opts s = Inr (length (promises s), s')
     \<and> requestPayload s' = (if requestPayload s b = None
                             then (requestPayload s)(b \<mapsto> \<lparr>url = u, options = otherOptions opts\<rparr>)
                             else requestPayload s)
     \<and> requestCounter s' = (requestCounter s)
          (b \<mapsto> (case requestCounter s b of
                    None \<Rightarrow> \<lparr>registered = 1, aborted = 0, processed = 0\<rparr>
                  | Some c \<Rightarrow> c\<lparr>registered := registered c + 1\<rparr>))
     \<and> requestDebounce s' = (requestDebounce s)(b \<mapsto> length (timers s) + 1)
     \<and> requestSignals s' = requestSignals s
     \<and> now s' = now s
     \<and> timers s' = (case requestDebounce s b of None \<Rightarrow> timers s | Some t \<Rightarrow> timers (clearTimeout t s))
                    @ [\<lparr>deadline = now s + 500, batch = b, armed = True\<rparr>]
     \<and> controllers s' = controllers s \<and> signals s' = signals s \<and> fetches s' = fetches s
     \<and> thenListeners s' = thenListeners s @ [(length (promises s), b)]
     \<and> catchListeners s' = catchListeners s @ [(length (promises s), b)]
     \<and> abortListeners s' = abortListeners s
          @ (case signal opts of None \<Rightarrow> [] | Some g \<Rightarrow> [(g, length (promises s), b)])
     \<and> promises s' = promises s @ [Pending]
     \<and> uncaught s' = uncaught s"
  using assms
  by (cases "requestPayload s b"; cases "requestCounter s b"; cases "requestDebounce s b";
      cases "signal opts")
     (simp_all add: prim_defs v1_defs Let_def)



subsection \<open>Registry retirement\<close>

text \<open>
  C2. The claim: every caller that joined is later counted as settled, an individual
  cancellation counting as settled too, so that a batch in which some callers cancel and
  the others receive the outcome is unregistered. The first variant at two callers of
  one signature, the first of which cancels before the timer fires: the cancellation
  bumps \<open>aborted\<close> only, the response bumps \<open>processed\<close> for the other caller only,
  neither counter reaches \<open>registered\<close>, and all four tables keep the entry after every
  caller has settled.
\<close>

theorem mixed_cancel_leaks_entry:
  "map_option
     (\<lambda>s. (promises s,
           requestCounter s ''otherOptions:/a:GET'',
           requestSignals s ''otherOptions:/a:GET'',
           map_option url (requestPayload s ''otherOptions:/a:GET''),
           requestDebounce s ''otherOptions:/a:GET''))
     (run demoHash
        [Call ''/a'' (getWith 0), Call ''/a'' get, Abort 0 abortError, Advance 500,
         TimerFire 2, Settle 0 (Response (7::nat))] init)
   = Some ([Rejected abortError, Resolved 7],
           Some \<lparr>registered = 2, aborted = 1, processed = 1\<rparr>, Some 0, Some ''/a'', Some 2)"
  by code_simp

subsection \<open>Escalation when every caller cancels\<close>

text \<open>
  C3. The claim: when every joined caller cancels, the timer is cancelled before dispatch
  and the shared controller is aborted after it, in both variants. The second variant
  assigns \<open>aborted = 1\<close> where the first increments: with two callers the counter never
  reaches \<open>registered = 2\<close>. Both cancel before the timer fires: the timer stays armed,
  it fires, and \<open>fetch\<close> is called. Both cancel after dispatch: the controller is not
  aborted and the entry stays. The last two runs are the first variant on the same
  inputs: there the timer is disarmed and no \<open>fetch\<close> is made, and after dispatch the
  controller is aborted.
\<close>

theorem variant2_full_cancel_not_escalated:
  "map_option (\<lambda>s. (requestCounter s ''options:/a:GET'', map armed (timers s), length (fetches s)))
     (run2 demoHash
        [Call ''/a'' (getWith 0), Call ''/a'' (getWith 1), Abort 0 abortError,
         Abort 1 abortError, Advance 1000] (init :: (string, nat) state))
   = Some (Some \<lparr>registered = 2, aborted = 1, processed = 0\<rparr>, [False, True], 0)
   \<and> map_option (\<lambda>s. (map f_url (fetches s), map f_done (fetches s)))
       (run2 demoHash
          [Call ''/a'' (getWith 0), Call ''/a'' (getWith 1), Abort 0 abortError,
           Abort 1 abortError, Advance 1000, TimerFire 2] (init :: (string, nat) state))
     = Some ([''/a''], [False])
   \<and> map_option (\<lambda>s. (requestCounter s ''options:/a:GET'', controllers s, promises s))
       (run2 demoHash
          [Call ''/a'' (getWith 0), Call ''/a'' (getWith 1), Advance 1000, TimerFire 2,
           Abort 0 abortError, Abort 1 abortError] (init :: (string, nat) state))
     = Some (Some \<lparr>registered = 2, aborted = 1, processed = 0\<rparr>, [False],
             [Rejected abortError, Rejected abortError])
   \<and> map_option (\<lambda>s. (requestCounter s ''otherOptions:/a:GET'', map armed (timers s), length (fetches s)))
       (run demoHash
          [Call ''/a'' (getWith 0), Call ''/a'' (getWith 1), Abort 0 abortError,
           Abort 1 abortError, Advance 500] (init :: (string, nat) state))
     = Some (None, [False, False], 0)
   \<and> map_option (\<lambda>s. (requestCounter s ''otherOptions:/a:GET'', controllers s, promises s))
       (run demoHash
          [Call ''/a'' (getWith 0), Call ''/a'' (getWith 1), Advance 500, TimerFire 2,
           Abort 0 abortError, Abort 1 abortError] (init :: (string, nat) state))
     = Some (None, [True], [Rejected abortError, Rejected abortError])"
  by code_simp

subsection \<open>Late joins\<close>

text \<open>
  C5. A call whose signature already has a controller in \<open>requestSignals\<close>: the first
  variant leaves the tables alone, calls \<open>fetch(url, options)\<close> with the caller's own
  options and signal and returns that promise; the second variant throws
  \<open>Error('Request already dispatched')\<close> out of \<open>registerRequest\<close>.
\<close>

theorem late_join_policies_differ:
  assumes "requestSignals s (hash ''otherOptions'' u (otherOptions opts)) \<noteq> None"
    and "requestSignals s' (hash ''options'' u (otherOptions opts)) \<noteq> None"
  shows "batchFetch hash u opts s =
           Inr (length (promises s),
                s\<lparr>promises := promises s @ [Pending],
                  fetches := fetches s @
                    [\<lparr>f_url = u, f_options = Some (otherOptions opts),
                      f_signal = (case signal opts of None \<Rightarrow> NoSignal | Some g \<Rightarrow> CallerSignal g),
                      f_sink = ToPromise (length (promises s)), f_done = False\<rparr>]\<rparr>)
         \<and> batchFetch2 hash u opts s' = Inl (JSError ''Error'' ''Request already dispatched'')"
  using assms by (simp add: batchFetch_def batchFetch2_def registerRequest2_def fetch_def Let_def)

theorem late_join_policies_differ_witness:
  "requestSignals dispatched (demoHash ''otherOptions'' ''/a'' (otherOptions get)) \<noteq> None
   \<and> requestSignals dispatched2 (demoHash ''options'' ''/a'' (otherOptions get)) \<noteq> None
   \<and> map_sum id fst (batchFetch demoHash ''/a'' get dispatched) = Inr 1
   \<and> batchFetch2 demoHash ''/a'' get dispatched2
       = Inl (JSError ''Error'' ''Request already dispatched'')"
proof -
  have h1: "requestSignals dispatched (demoHash ''otherOptions'' ''/a'' (otherOptions get)) \<noteq> None"
    by code_simp
  have h2: "requestSignals dispatched2 (demoHash ''options'' ''/a'' (otherOptions get)) \<noteq> None"
    by code_simp
  have h3: "length (promises dispatched) = 1"
    by code_simp
  from late_join_policies_differ [of dispatched demoHash "''/a''" get dispatched2, OF h1 h2] h1 h2 h3
  show ?thesis by simp
qed

subsection \<open>Abort errors are not broadcast\<close>

text \<open>
  C6. When the \<open>fetch\<close> of a batch settles with an error, the \<open>.catch\<close> callback of
  \<open>dispatchRequest\<close> broadcasts \<open>batchFetchCatch\<close> only if the error's name is not
  \<open>AbortError\<close>; for an \<open>AbortError\<close> nothing but the log of the \<open>fetch\<close> changes. In
  particular, once the batch's own controller has been aborted (the escalation), whatever
  the network gave, no caller hears of it.
\<close>

theorem abort_outcome_not_broadcast:
  assumes "i < length (fetches s)" and "\<not> f_done (fetches s ! i)"
    and "f_sink (fetches s ! i) = ToBatch b"
  shows "(\<forall>e. fetchResult (fetches s ! i) out s = Failure e \<longrightarrow>
            settleFetch i out s =
              Some (if ename e = ''AbortError''
                    then s\<lparr>fetches := (fetches s)[i := (fetches s ! i)\<lparr>f_done := True\<rparr>]\<rparr>
                    else runCatch (catchListeners s) (b, e)
                           (s\<lparr>fetches := (fetches s)[i := (fetches s ! i)\<lparr>f_done := True\<rparr>]\<rparr>)))
       \<and> (\<forall>c. f_signal (fetches s ! i) = BatchSignal c \<and> c < length (controllers s)
                \<and> controllers s ! c \<longrightarrow>
            settleFetch i out s =
              Some (s\<lparr>fetches := (fetches s)[i := (fetches s ! i)\<lparr>f_done := True\<rparr>]\<rparr>))"
  using assms
  by (simp add: settleFetch_def dispatchRequest_settled_def fetchResult_def abortError_def Let_def)

theorem abort_outcome_not_broadcast_witness:
  "0 < length (fetches escalated) \<and> \<not> f_done (fetches escalated ! 0)
   \<and> f_sink (fetches escalated ! 0) = ToBatch ''otherOptions:/a:GET''
   \<and> f_signal (fetches escalated ! 0) = BatchSignal 0 \<and> controllers escalated ! 0
   \<and> promises (the (settleFetch 0 (Response 7) escalated)) = [Rejected abortError]
   \<and> uncaught (the (settleFetch 0 (Response 7) escalated)) = []"
proof -
  have h1: "0 < length (fetches escalated)" by code_simp
  have h2: "\<not> f_done (fetches escalated ! 0)" by code_simp
  have h3: "f_sink (fetches escalated ! 0) = ToBatch ''otherOptions:/a:GET''" by code_simp
  have h4: "f_signal (fetches escalated ! 0) = BatchSignal 0" by code_simp
  have h5: "0 < length (controllers escalated)" by code_simp
  have h6: "controllers escalated ! 0" by code_simp
  have h7: "promises escalated = [Rejected abortError]" by code_simp
  have h8: "uncaught escalated = []" by code_simp
  from abort_outcome_not_broadcast [OF h1 h2 h3, of "Response 7"] h4 h5 h6
  have "settleFetch 0 (Response 7) escalated
          = Some (escalated\<lparr>fetches := (fetches escalated)[0 := (fetches escalated ! 0)\<lparr>f_done := True\<rparr>]\<rparr>)"
    by blast
  with h1 h2 h3 h4 h6 h7 h8 show ?thesis by simp
qed

subsection \<open>Debounce\<close>

lemma join_rearms:
  assumes "requestSignals s b = None" and "b = hash ''otherOptions'' u (otherOptions opts)"
  shows "\<exists>p s'. batchFetch hash u opts s = Inr (p, s')
     \<and> timers s' = (case requestDebounce s b of None \<Rightarrow> timers s | Some t \<Rightarrow> timers (clearTimeout t s))
                    @ [\<lparr>deadline = now s + 500, batch = b, armed = True\<rparr>]
     \<and> requestDebounce s' b = Some (length (timers s) + 1)
     \<and> (\<forall>t. requestDebounce s b = Some t \<and> 0 < t \<and> t \<le> length (timers s)
            \<longrightarrow> \<not> armed (timers s' ! (t - 1)))
     \<and> (\<forall>d<500. fireTimer (length (timers s) + 1) (s'\<lparr>now := now s' + d\<rparr>) = None)
     \<and> (\<forall>d\<ge>500. fireTimer (length (timers s) + 1) (s'\<lparr>now := now s' + d\<rparr>) \<noteq> None)"
proof -
  let ?old = "case requestDebounce s b of None \<Rightarrow> timers s | Some t \<Rightarrow> timers (clearTimeout t s)"
  from join_effect [where s = s and hash = hash and u = u and opts = opts, OF assms]
  obtain s' where
    bf: "batchFetch hash u opts s = Inr (length (promises s), s')" and n: "now s' = now s"
    and tm: "timers s' = ?old @ [\<lparr>deadline = now s + 500, batch = b, armed = True\<rparr>]"
    and rd': "requestDebounce s' = (requestDebounce s)(b \<mapsto> length (timers s) + 1)"
    by blast
  from rd' have rd: "requestDebounce s' b = Some (length (timers s) + 1)"
    by simp
  have len: "length ?old = length (timers s)"
    by (simp add: clearTimeout_def split: option.splits)
  have old: "\<forall>t. requestDebounce s b = Some t \<and> 0 < t \<and> t \<le> length (timers s)
               \<longrightarrow> \<not> armed (timers s' ! (t - 1))"
    by (auto simp add: tm clearTimeout_def nth_append)
  have new: "timers s' ! length (timers s) = \<lparr>deadline = now s + 500, batch = b, armed = True\<rparr>"
    using len by (simp add: tm nth_append)
  have early: "\<forall>d<500. fireTimer (length (timers s) + 1) (s'\<lparr>now := now s' + d\<rparr>) = None"
    using new by (simp add: fireTimer_def n)
  have late: "\<forall>d\<ge>500. fireTimer (length (timers s) + 1) (s'\<lparr>now := now s' + d\<rparr>) \<noteq> None"
    using new len by (simp add: fireTimer_def n tm)
  from bf tm rd old early late show ?thesis by blast
qed

lemma two_timers: "t \<le> Suc (Suc 0) \<Longrightarrow> t = 0 \<or> t = Suc 0 \<or> t = Suc (Suc 0)"
  by arith

lemma second_join_at_100:
  "otherOptions o1 = otherOptions o2 \<Longrightarrow>
     (\<forall>d t. d < 500 \<longrightarrow>
        run hash [Call u o1, Advance 100, Call u o2, Advance d, TimerFire t] init = None)
     \<and> (\<exists>s. run hash [Call u o1, Advance 100, Call u o2, Advance 500, TimerFire 2] init = Some s
            \<and> now s = 600 \<and> length (fetches s) = 1)"
  apply (cases "signal o1"; cases "signal o2")
     apply (simp_all add: prim_defs v1_defs Let_def init_def called_def fireTimer_def nth_append)
     apply (auto dest!: two_timers)
  done

text \<open>
  C7. A call that joins (its signature has no controller yet) at time \<open>now s\<close>:
  the timer the table held for the signature, if it is one of the timers, is no longer
  armed; a new timer is appended with deadline \<open>now s + 500\<close> and the table points to it;
  it cannot fire less than 500 ms later and can fire from then on. In particular, from
  the empty state, with a first call at 0 and a second call of the same signature at
  100, no timer at all can fire before 600, and at 600 the second timer fires and makes
  the one \<open>fetch\<close>.
\<close>

theorem join_rearms_debounce:
  assumes "requestSignals s b = None" and "b = hash ''otherOptions'' u (otherOptions opts)"
    and "otherOptions o1 = otherOptions o2"
  shows "(\<exists>p s'. batchFetch hash u opts s = Inr (p, s')
     \<and> timers s' = (case requestDebounce s b of None \<Rightarrow> timers s | Some t \<Rightarrow> timers (clearTimeout t s))
                    @ [\<lparr>deadline = now s + 500, batch = b, armed = True\<rparr>]
     \<and> requestDebounce s' b = Some (length (timers s) + 1)
     \<and> (\<forall>t. requestDebounce s b = Some t \<and> 0 < t \<and> t \<le> length (timers s)
            \<longrightarrow> \<not> armed (timers s' ! (t - 1)))
     \<and> (\<forall>d<500. fireTimer (length (timers s) + 1) (s'\<lparr>now := now s' + d\<rparr>) = None)
     \<and> (\<forall>d\<ge>500. fireTimer (length (timers s) + 1) (s'\<lparr>now := now s' + d\<rparr>) \<noteq> None))
   \<and> (\<forall>d t. d < 500 \<longrightarrow>
        run hash [Call v o1, Advance 100, Call v o2, Advance d, TimerFire t]
          (init :: ('p, 'r) state) = None)
   \<and> (\<exists>s''. run hash [Call v o1, Advance 100, Call v o2, Advance 500, TimerFire 2]
               (init :: ('p, 'r) state) = Some s''
            \<and> now s'' = 600 \<and> length (fetches s'') = 1)"
proof -
  from assms(1,2) have a: "\<exists>p s'. batchFetch hash u opts s = Inr (p, s')
     \<and> timers s' = (case requestDebounce s b of None \<Rightarrow> timers s | Some t \<Rightarrow> timers (clearTimeout t s))
                    @ [\<lparr>deadline = now s + 500, batch = b, armed = True\<rparr>]
     \<and> requestDebounce s' b = Some (length (timers s) + 1)
     \<and> (\<forall>t. requestDebounce s b = Some t \<and> 0 < t \<and> t \<le> length (timers s)
            \<longrightarrow> \<not> armed (timers s' ! (t - 1)))
     \<and> (\<forall>d<500. fireTimer (length (timers s) + 1) (s'\<lparr>now := now s' + d\<rparr>) = None)
     \<and> (\<forall>d\<ge>500. fireTimer (length (timers s) + 1) (s'\<lparr>now := now s' + d\<rparr>) \<noteq> None)"
    by (rule join_rearms)
  from assms(3) have b: "(\<forall>d t. d < 500 \<longrightarrow>
        run hash [Call v o1, Advance 100, Call v o2, Advance d, TimerFire t]
          (init :: ('p, 'r) state) = None)
     \<and> (\<exists>s''. run hash [Call v o1, Advance 100, Call v o2, Advance 500, TimerFire 2]
               (init :: ('p, 'r) state) = Some s''
            \<and> now s'' = 600 \<and> length (fetches s'') = 1)"
    by (rule second_join_at_100)
  from a b show ?thesis by blast
qed

theorem join_rearms_debounce_witness:
  "requestSignals (init :: (string, nat) state)
     (demoHash ''otherOptions'' ''/a'' (otherOptions get)) = None
   \<and> otherOptions get = otherOptions (getWith 3)
   \<and> fireTimer 1 ((snd (projr (batchFetch demoHash ''/a'' get (init :: (string, nat) state))))
                     \<lparr>now := 499\<rparr>) = None
   \<and> run demoHash [Call ''/a'' get, Advance 100, Call ''/a'' (getWith 3), Advance 499, TimerFire 1]
        (init :: (string, nat) state) = None
   \<and> run demoHash [Call ''/a'' get, Advance 100, Call ''/a'' (getWith 3), Advance 499, TimerFire 2]
        (init :: (string, nat) state) = None
   \<and> map_option (\<lambda>s. (now s, length (fetches s)))
        (run demoHash
           [Call ''/a'' get, Advance 100, Call ''/a'' (getWith 3), Advance 500, TimerFire 2]
           (init :: (string, nat) state)) = Some (600, 1)"
proof -
  have h1: "requestSignals (init :: (string, nat) state)
              (demoHash ''otherOptions'' ''/a'' (otherOptions get)) = None"
    by (simp add: init_def)
  have h2: "otherOptions get = otherOptions (getWith 3)"
    by (simp add: get_def getWith_def)
  have h3: "length (timers (init :: (string, nat) state)) = 0"
    by (simp add: init_def)
  note t = join_rearms_debounce [where s = "init :: (string, nat) state" and hash = demoHash
      and u = "''/a''" and opts = get and ?o1.0 = get and ?o2.0 = "getWith 3" and v = "''/a''",
      OF h1 refl h2]
  from t obtain p s' where
    bf: "batchFetch demoHash ''/a'' get (init :: (string, nat) state) = Inr (p, s')"
    and n: "\<forall>d<500. fireTimer (length (timers (init :: (string, nat) state)) + 1)
                          (s'\<lparr>now := now s' + d\<rparr>) = None"
    by blast
  have n0: "now s' = 0"
    using bf by (simp add: prim_defs v1_defs Let_def init_def get_def) auto
  from n have "fireTimer (length (timers (init :: (string, nat) state)) + 1)
                 (s'\<lparr>now := now s' + 499\<rparr>) = None"
    by simp
  with bf h3 n0 have a: "fireTimer 1 ((snd (projr (batchFetch demoHash ''/a'' get
                     (init :: (string, nat) state))))\<lparr>now := 499\<rparr>) = None"
    by simp
  from t have b: "\<forall>d t. d < 500 \<longrightarrow>
        run demoHash [Call ''/a'' get, Advance 100, Call ''/a'' (getWith 3), Advance d, TimerFire t]
          (init :: (string, nat) state) = None"
    by blast
  from b have b1: "run demoHash
        [Call ''/a'' get, Advance 100, Call ''/a'' (getWith 3), Advance 499, TimerFire 1]
        (init :: (string, nat) state) = None"
    by simp
  from b have b2: "run demoHash
        [Call ''/a'' get, Advance 100, Call ''/a'' (getWith 3), Advance 499, TimerFire 2]
        (init :: (string, nat) state) = None"
    by simp
  from t obtain s'' where
    "run demoHash [Call ''/a'' get, Advance 100, Call ''/a'' (getWith 3), Advance 500, TimerFire 2]
       (init :: (string, nat) state) = Some s''"
    and "now s'' = 600" and "length (fetches s'') = 1"
    by blast
  then have c: "map_option (\<lambda>s. (now s, length (fetches s)))
        (run demoHash
           [Call ''/a'' get, Advance 100, Call ''/a'' (getWith 3), Advance 500, TimerFire 2]
           (init :: (string, nat) state)) = Some (600, 1)"
    by simp
  from h1 h2 a b1 b2 c show ?thesis by blast
qed

subsection \<open>Delivery once per caller\<close>

text \<open>
  C8. The claim: a caller that has settled never reacts to a later broadcast, also one
  of a later batch of the same signature. \<open>onBatchFetchThen\<close> removes the caller's
  \<open>batchFetchThen\<close> listener only (the abort listener removes both), so a caller
  resolved by a response keeps its \<open>batchFetchCatch\<close> listener after its batch is
  unregistered (first run below). When a later batch of the same signature fails (second
  run), that listener runs first: it bumps \<open>processed\<close> of the new batch, unregisters it
  and rejects a promise that is resolved already; the listener of the new caller then
  finds no counter, throws a \<open>TypeError\<close> and never rejects: the new caller's promise
  stays pending for good.
\<close>

theorem stale_listener_reacts:
  "map_option (\<lambda>s. (promises s, catchListeners s, requestCounter s ''otherOptions:/a:GET''))
     (run demoHash
        [Call ''/a'' get, Advance 500, TimerFire 1, Settle 0 (Response (7::nat))] init)
   = Some ([Resolved 7], [(0, ''otherOptions:/a:GET'')], None)
   \<and> map_option
       (\<lambda>s. (promises s, uncaught s, thenListeners s, requestCounter s ''otherOptions:/a:GET''))
       (run demoHash
          [Call ''/a'' get, Advance 500, TimerFire 1, Settle 0 (Response (7::nat)),
           Call ''/a'' get, Advance 500, TimerFire 2,
           Settle 1 (Failure (JSError ''TypeError'' ''Failed to fetch''))] init)
     = Some ([Resolved 7, Pending], [typeError], [(1, ''otherOptions:/a:GET'')], None)"
  by code_simp

subsection \<open>The signature leaves the signal out\<close>



subsection \<open>The abort listener after retirement\<close>

text \<open>
  C10. The abort listener of a caller throws a \<open>TypeError\<close> exactly when the counter
  entry of its batch is missing: \<open>incrementRequestCounter\<close> reads a field of
  \<open>undefined\<close>. It has then removed the caller's two listeners and done nothing else: no
  timer is cleared, no controller aborted, no promise rejected. So when a signal whose
  one listener belongs to an unregistered batch aborts, the event loop is left with an
  uncaught \<open>TypeError\<close>; with the entry present nothing is thrown.
\<close>

theorem abort_handler_needs_entry:
  "uncaught (onAbort p b e s)
     = (if requestCounter s b = None then uncaught s @ [typeError] else uncaught s)
   \<and> (requestCounter s b = None \<longrightarrow>
        onAbort p b e s
          = (removeCatch p b (removeThen p b s))\<lparr>uncaught := uncaught s @ [typeError]\<rparr>)
   \<and> (requestCounter s b = None \<and> signals s g = None
        \<and> filter (\<lambda>x. fst x = g) (abortListeners s) = [(g, p, b)] \<longrightarrow>
        uncaught (abortSignal g e s) = uncaught s @ [typeError]
        \<and> promises (abortSignal g e s) = promises s)"
  by (simp add: prim_defs v1_defs abortSignal_def Let_def split: option.splits)

theorem abort_handler_needs_entry_witness:
  "requestCounter retired ''otherOptions:/a:GET'' = None \<and> signals retired 0 = None
   \<and> filter (\<lambda>x. fst x = 0) (abortListeners retired) = [(0, 0, ''otherOptions:/a:GET'')]
   \<and> uncaught (abortSignal 0 abortError retired) = [typeError]
   \<and> promises (abortSignal 0 abortError retired) = [Resolved 7]"
proof -
  have h1: "requestCounter retired ''otherOptions:/a:GET'' = None" by code_simp
  have h2: "signals retired 0 = None" by code_simp
  have h3: "filter (\<lambda>x. fst x = 0) (abortListeners retired) = [(0, 0, ''otherOptions:/a:GET'')]"
    by code_simp
  have h4: "uncaught retired = []" by code_simp
  have h5: "promises retired = [Resolved 7]" by code_simp
  from abort_handler_needs_entry [of 0 "''otherOptions:/a:GET''" abortError retired 0] h1 h2 h3 h4 h5
  show ?thesis by simp
qed

subsection \<open>The life of one batch\<close>

text \<open>The lemmas below follow one batch through the event loop: the calls that join
  it, the cancellations that are not escalated, the timer that fires, and the broadcast
  of the outcome to the callers that still listen.\<close>

lemma run_append:
  "run hash (xs @ ys) s = (case run hash xs s of None \<Rightarrow> None | Some s' \<Rightarrow> run hash ys s')"
  by (induction xs arbitrary: s) (simp_all split: option.splits)

lemma joins_snoc:
  "joins u p (cs @ [c])
     = joins u p cs @ [Advance (fst c), Call u \<lparr>signal = snd c, otherOptions = p\<rparr>]"
  by (simp add: joins_def)

lemma nth_snoc_map:
  "concat (map (\<lambda>i. f ((cs @ [c]) ! i) i) [0..<length cs])
     = concat (map (\<lambda>i. f (cs ! i) i) [0..<length cs])"
  by (rule arg_cong [where f = concat]) (simp add: nth_append)

lemma old_timers_length:
  "length (case d of None \<Rightarrow> timers s | Some t \<Rightarrow> timers (clearTimeout t s)) = length (timers s)"
  by (simp add: clearTimeout_def split: option.splits)

lemma joins_effect:
  assumes i1: "requestSignals s b = None" and i2: "requestCounter s b = None"
    and i3: "requestPayload s b = None" and b: "b = hash ''otherOptions'' u p"
  shows "\<exists>s'. run hash (joins u p cs) s = Some s'
     \<and> requestSignals s' = requestSignals s \<and> controllers s' = controllers s
     \<and> signals s' = signals s \<and> fetches s' = fetches s \<and> uncaught s' = uncaught s
     \<and> length (timers s') = length (timers s) + length cs
     \<and> promises s' = promises s @ replicate (length cs) Pending
     \<and> thenListeners s' = thenListeners s
          @ map (\<lambda>i. (length (promises s) + i, b)) [0..<length cs]
     \<and> catchListeners s' = catchListeners s
          @ map (\<lambda>i. (length (promises s) + i, b)) [0..<length cs]
     \<and> abortListeners s' = abortListeners s
          @ concat (map (\<lambda>i. case snd (cs ! i) of None \<Rightarrow> []
                              | Some g \<Rightarrow> [(g, length (promises s) + i, b)]) [0..<length cs])
     \<and> (cs \<noteq> [] \<longrightarrow>
          requestCounter s' b = Some \<lparr>registered = length cs, aborted = 0, processed = 0\<rparr>
        \<and> requestPayload s' b = Some \<lparr>url = u, options = p\<rparr>
        \<and> requestDebounce s' b = Some (length (timers s'))
        \<and> timers s' ! (length (timers s') - 1)
            = \<lparr>deadline = now s' + 500, batch = b, armed = True\<rparr>)
     \<and> (cs = [] \<longrightarrow> requestCounter s' b = None \<and> requestPayload s' b = None)"
proof (induction cs rule: rev_induct)
  case Nil
  show ?case using i2 i3 by (simp add: joins_def)
next
  case (snoc c cs)
  let ?P = "length (promises s)"
  let ?n = "length cs"
  let ?F = "\<lambda>cs i. case snd (cs ! i) of None \<Rightarrow> [] | Some g \<Rightarrow> [(g, ?P + i, b)]"
  from snoc.IH obtain s1 where
    r1: "run hash (joins u p cs) s = Some s1"
    and g1: "requestSignals s1 = requestSignals s" and k1: "controllers s1 = controllers s"
    and sg1: "signals s1 = signals s" and f1: "fetches s1 = fetches s"
    and u1: "uncaught s1 = uncaught s"
    and t1: "length (timers s1) = length (timers s) + ?n"
    and p1: "promises s1 = promises s @ replicate ?n Pending"
    and th1: "thenListeners s1 = thenListeners s @ map (\<lambda>i. (?P + i, b)) [0..<?n]"
    and ca1: "catchListeners s1 = catchListeners s @ map (\<lambda>i. (?P + i, b)) [0..<?n]"
    and ab1: "abortListeners s1 = abortListeners s @ concat (map (?F cs) [0..<?n])"
    and ne1: "cs \<noteq> [] \<longrightarrow>
          requestCounter s1 b = Some \<lparr>registered = ?n, aborted = 0, processed = 0\<rparr>
        \<and> requestPayload s1 b = Some \<lparr>url = u, options = p\<rparr>"
    and e1: "cs = [] \<longrightarrow> requestCounter s1 b = None \<and> requestPayload s1 b = None"
    by blast
  let ?s2 = "s1\<lparr>now := now s1 + fst c\<rparr>"
  let ?o = "\<lparr>signal = snd c, otherOptions = p\<rparr>"
  have g2: "requestSignals ?s2 b = None"
    using g1 i1 by simp
  have b2: "b = hash ''otherOptions'' u (otherOptions ?o)"
    using b by simp
  from join_effect [where s = ?s2 and hash = hash and u = u and opts = ?o, OF g2 b2]
  obtain s3 where
    c3: "batchFetch hash u ?o ?s2 = Inr (length (promises ?s2), s3)"
    and pl3: "requestPayload s3 = (if requestPayload ?s2 b = None
                             then (requestPayload ?s2)(b \<mapsto> \<lparr>url = u, options = otherOptions ?o\<rparr>)
                             else requestPayload ?s2)"
    and cn3: "requestCounter s3 = (requestCounter ?s2)
          (b \<mapsto> (case requestCounter ?s2 b of
                    None \<Rightarrow> \<lparr>registered = 1, aborted = 0, processed = 0\<rparr>
                  | Some c \<Rightarrow> c\<lparr>registered := registered c + 1\<rparr>))"
    and db3: "requestDebounce s3 = (requestDebounce ?s2)(b \<mapsto> length (timers ?s2) + 1)"
    and g3: "requestSignals s3 = requestSignals ?s2"
    and n3: "now s3 = now ?s2"
    and t3: "timers s3 = (case requestDebounce ?s2 b of None \<Rightarrow> timers ?s2
                          | Some t \<Rightarrow> timers (clearTimeout t ?s2))
                    @ [\<lparr>deadline = now ?s2 + 500, batch = b, armed = True\<rparr>]"
    and k3: "controllers s3 = controllers ?s2" and sg3: "signals s3 = signals ?s2"
    and f3: "fetches s3 = fetches ?s2"
    and th3: "thenListeners s3 = thenListeners ?s2 @ [(length (promises ?s2), b)]"
    and ca3: "catchListeners s3 = catchListeners ?s2 @ [(length (promises ?s2), b)]"
    and ab3: "abortListeners s3 = abortListeners ?s2
          @ (case signal ?o of None \<Rightarrow> [] | Some g \<Rightarrow> [(g, length (promises ?s2), b)])"
    and p3: "promises s3 = promises ?s2 @ [Pending]"
    and u3: "uncaught s3 = uncaught ?s2"
    by blast
  have len2: "length (promises s1) = ?P + ?n"
    by (simp add: p1)
  note old = old_timers_length
  have c1: "run hash (joins u p (cs @ [c])) s = Some s3"
    by (simp add: joins_snoc run_append r1 c3 called_def)
  have c2: "requestSignals s3 = requestSignals s" "controllers s3 = controllers s"
    "signals s3 = signals s" "fetches s3 = fetches s" "uncaught s3 = uncaught s"
    by (simp_all add: g3 g1 k3 k1 sg3 sg1 f3 f1 u3 u1)
  have c3': "length (timers s3) = length (timers s) + length (cs @ [c])"
    by (simp add: t3 old t1)
  have c4: "promises s3 = promises s @ replicate (length (cs @ [c])) Pending"
    by (simp add: p3 p1 replicate_append_same)
  have c5: "thenListeners s3 = thenListeners s @ map (\<lambda>i. (?P + i, b)) [0..<length (cs @ [c])]"
    by (simp add: th3 th1 len2)
  have c6: "catchListeners s3 = catchListeners s @ map (\<lambda>i. (?P + i, b)) [0..<length (cs @ [c])]"
    by (simp add: ca3 ca1 len2)
  have "concat (map (?F (cs @ [c])) [0..<?n]) = concat (map (?F cs) [0..<?n])"
    by (rule nth_snoc_map [where f = "\<lambda>x i. case snd x of None \<Rightarrow> [] | Some g \<Rightarrow> [(g, ?P + i, b)]"])
  then have c7: "abortListeners s3 = abortListeners s
          @ concat (map (?F (cs @ [c])) [0..<length (cs @ [c])])"
    by (simp add: ab3 ab1 len2 split: option.splits)
  have c8: "requestCounter s3 b
              = Some \<lparr>registered = length (cs @ [c]), aborted = 0, processed = 0\<rparr>"
    using ne1 e1 by (cases "cs = []") (simp_all add: cn3)
  have c9: "requestPayload s3 b = Some \<lparr>url = u, options = p\<rparr>"
    using ne1 e1 by (cases "cs = []") (simp_all add: pl3)
  have c10: "requestDebounce s3 b = Some (length (timers s3))"
    by (simp add: db3 t3 old)
  have c11: "timers s3 ! (length (timers s3) - 1)
            = \<lparr>deadline = now s3 + 500, batch = b, armed = True\<rparr>"
    by (simp add: t3 n3 nth_append old)
  from c1 c2 c3' c4 c5 c6 c7 c8 c9 c10 c11 show ?case
    by (intro exI [of _ s3]) simp
qed

lemma filter_removeAll_self:
  "distinct (q # L) \<Longrightarrow> filter P xs = map f (q # L) \<Longrightarrow> inj f
     \<Longrightarrow> filter P (removeAll (f q) xs) = map f L"
proof -
  assume d: "distinct (q # L)" and f: "filter P xs = map f (q # L)" and i: "inj f"
  have "filter P (removeAll (f q) xs) = removeAll (f q) (filter P xs)"
    by (induction xs) auto
  also have "\<dots> = removeAll (f q) (map f (q # L))"
    by (simp only: f)
  also have "\<dots> = map f L"
  proof -
    have "f q \<notin> set (map f L)"
      using d i by (auto simp add: inj_def)
    then show ?thesis by (simp add: removeAll_id)
  qed
  finally show ?thesis .
qed

lemma onThen_live:
  assumes "requestCounter s b = Some \<lparr>registered = n, aborted = a, processed = m\<rparr>"
    and "p < length (promises s)" and "promises s ! p = Pending"
  shows "thenListeners (onBatchFetchThen p b (b, r) s) = removeAll (p, b) (thenListeners s)"
    and "catchListeners (onBatchFetchThen p b (b, r) s) = catchListeners s"
    and "promises (onBatchFetchThen p b (b, r) s) = (promises s)[p := Resolved r]"
    and "requestCounter (onBatchFetchThen p b (b, r) s) b
           = (if n = m + 1 then None else Some \<lparr>registered = n, aborted = a, processed = m + 1\<rparr>)"
    and "uncaught (onBatchFetchThen p b (b, r) s) = uncaught s"
    and "fetches (onBatchFetchThen p b (b, r) s) = fetches s"
    and "controllers (onBatchFetchThen p b (b, r) s) = controllers s"
    and "requestSignals (onBatchFetchThen p b (b, r) s) b
           = (if n = m + 1 then None else requestSignals s b)"
  using assms by (simp_all add: prim_defs v1_defs Let_def)

lemma runThen_skip: "\<forall>x\<in>set ls. snd x \<noteq> b \<Longrightarrow> runThen ls (b, r) s = s"
  by (induction ls arbitrary: s) (auto simp add: onBatchFetchThen_def)


lemma runThen_live:
  assumes "filter (\<lambda>x. snd x = b) ls = map (\<lambda>p. (p, b)) L"
    and "filter (\<lambda>x. snd x = b) (thenListeners s) = map (\<lambda>p. (p, b)) L"
    and "requestCounter s b = Some \<lparr>registered = n, aborted = a, processed = m\<rparr>"
    and "a + m + length L = n" and "distinct L"
    and "\<forall>p\<in>set L. p < length (promises s) \<and> promises s ! p = Pending"
  shows "(\<forall>p\<in>set L. promises (runThen ls (b, r) s) ! p = Resolved r)
     \<and> length (promises (runThen ls (b, r) s)) = length (promises s)
     \<and> (\<forall>q. q \<notin> set L \<longrightarrow> promises (runThen ls (b, r) s) ! q = promises s ! q)
     \<and> requestCounter (runThen ls (b, r) s) b
         = (if L \<noteq> [] \<and> a = 0 then None
            else Some \<lparr>registered = n, aborted = a, processed = m + length L\<rparr>)
     \<and> requestSignals (runThen ls (b, r) s) b
         = (if L \<noteq> [] \<and> a = 0 then None else requestSignals s b)
     \<and> uncaught (runThen ls (b, r) s) = uncaught s
     \<and> fetches (runThen ls (b, r) s) = fetches s
     \<and> controllers (runThen ls (b, r) s) = controllers s
     \<and> catchListeners (runThen ls (b, r) s) = catchListeners s"
  using assms
proof (induction ls arbitrary: s m L)
  case Nil
  then show ?case by simp
next
  case (Cons x ls)
  obtain q b' where x: "x = (q, b')" by (cases x)
  show ?case
  proof (cases "b' = b")
    case False
    then have same: "runThen (x # ls) (b, r) s = runThen ls (b, r) s"
      by (simp add: x onBatchFetchThen_def)
    from False Cons.prems(1) have "filter (\<lambda>x. snd x = b) ls = map (\<lambda>p. (p, b)) L"
      by (simp add: x)
    then show ?thesis
      unfolding same by (rule Cons.IH [OF _ Cons.prems(2-6)])
  next
    case True
    from True Cons.prems(1) obtain L' where L: "L = q # L'"
      and rest: "filter (\<lambda>x. snd x = b) ls = map (\<lambda>p. (p, b)) L'"
      by (cases L) (auto simp add: x)
    have mem: "(q, b) \<in> set (thenListeners s)"
    proof -
      have "(q, b) \<in> set (filter (\<lambda>x. snd x = b) (thenListeners s))"
        by (simp add: Cons.prems(2) L)
      then show ?thesis by simp
    qed
    let ?s1 = "onBatchFetchThen q b (b, r) s"
    have step: "runThen (x # ls) (b, r) s = runThen ls (b, r) ?s1"
      using mem by (simp add: x True)
    have q: "q < length (promises s)" "promises s ! q = Pending"
      using Cons.prems(6) by (simp_all add: L)
    note eff = onThen_live [OF Cons.prems(3) q, of r]
    have inj: "inj (\<lambda>p. (p, b))"
      by (simp add: inj_def)
    have d: "distinct (q # L')"
      using Cons.prems(5) by (simp add: L)
    have tl1: "filter (\<lambda>x. snd x = b) (thenListeners ?s1) = map (\<lambda>p. (p, b)) L'"
      using filter_removeAll_self [OF d _ inj, of "\<lambda>x. snd x = b" "thenListeners s"] Cons.prems(2)
      by (simp add: eff(1) L)
    have pend: "\<forall>p\<in>set L'. p < length (promises ?s1) \<and> promises ?s1 ! p = Pending"
    proof
      fix p assume p: "p \<in> set L'"
      with d have "p \<noteq> q" by auto
      with p Cons.prems(6) show "p < length (promises ?s1) \<and> promises ?s1 ! p = Pending"
        by (simp add: eff(3) L)
    qed
    show ?thesis
    proof (cases "L' = []")
      case True
      with rest have "\<forall>x\<in>set ls. snd x \<noteq> b"
        by (simp add: filter_empty_conv)
      then have "runThen ls (b, r) ?s1 = ?s1"
        by (rule runThen_skip)
      with step have fin: "runThen (x # ls) (b, r) s = ?s1"
        by simp
      have nm: "n = m + 1 \<longleftrightarrow> a = 0"
        using Cons.prems(4) by (auto simp add: L True)
      show ?thesis
        using q nm by (simp add: fin eff L True)
    next
      case False
      have lt: "n \<noteq> m + 1"
        using Cons.prems(4) False by (cases L') (simp_all add: L)
      have c1: "requestCounter ?s1 b = Some \<lparr>registered = n, aborted = a, processed = m + 1\<rparr>"
        using lt by (simp add: eff(4))
      have sum1: "a + (m + 1) + length L' = n"
        using Cons.prems(4) by (simp add: L)
      have d1: "distinct L'"
        using d by simp
      note ih = Cons.IH [OF rest tl1 c1 sum1 d1 pend]
      have qn: "q \<notin> set L'"
        using d by simp
      from ih qn q lt show ?thesis
        by (simp add: step eff L False)
    qed
  qed
qed

lemma onCatch_live:
  assumes "requestCounter s b = Some \<lparr>registered = n, aborted = a, processed = m\<rparr>"
    and "p < length (promises s)" and "promises s ! p = Pending"
  shows "catchListeners (onBatchFetchCatch p b (b, e) s) = removeAll (p, b) (catchListeners s)"
    and "thenListeners (onBatchFetchCatch p b (b, e) s) = thenListeners s"
    and "promises (onBatchFetchCatch p b (b, e) s) = (promises s)[p := Rejected e]"
    and "requestCounter (onBatchFetchCatch p b (b, e) s) b
           = (if n = m + 1 then None else Some \<lparr>registered = n, aborted = a, processed = m + 1\<rparr>)"
    and "uncaught (onBatchFetchCatch p b (b, e) s) = uncaught s"
    and "fetches (onBatchFetchCatch p b (b, e) s) = fetches s"
    and "controllers (onBatchFetchCatch p b (b, e) s) = controllers s"
    and "requestSignals (onBatchFetchCatch p b (b, e) s) b
           = (if n = m + 1 then None else requestSignals s b)"
  using assms by (simp_all add: prim_defs v1_defs Let_def)

lemma runCatch_skip: "\<forall>x\<in>set ls. snd x \<noteq> b \<Longrightarrow> runCatch ls (b, e) s = s"
  by (induction ls arbitrary: s) (auto simp add: onBatchFetchCatch_def)


lemma runCatch_live:
  assumes "filter (\<lambda>x. snd x = b) ls = map (\<lambda>p. (p, b)) L"
    and "filter (\<lambda>x. snd x = b) (catchListeners s) = map (\<lambda>p. (p, b)) L"
    and "requestCounter s b = Some \<lparr>registered = n, aborted = a, processed = m\<rparr>"
    and "a + m + length L = n" and "distinct L"
    and "\<forall>p\<in>set L. p < length (promises s) \<and> promises s ! p = Pending"
  shows "(\<forall>p\<in>set L. promises (runCatch ls (b, e) s) ! p = Rejected e)
     \<and> length (promises (runCatch ls (b, e) s)) = length (promises s)
     \<and> (\<forall>q. q \<notin> set L \<longrightarrow> promises (runCatch ls (b, e) s) ! q = promises s ! q)
     \<and> requestCounter (runCatch ls (b, e) s) b
         = (if L \<noteq> [] \<and> a = 0 then None
            else Some \<lparr>registered = n, aborted = a, processed = m + length L\<rparr>)
     \<and> requestSignals (runCatch ls (b, e) s) b
         = (if L \<noteq> [] \<and> a = 0 then None else requestSignals s b)
     \<and> uncaught (runCatch ls (b, e) s) = uncaught s
     \<and> fetches (runCatch ls (b, e) s) = fetches s
     \<and> controllers (runCatch ls (b, e) s) = controllers s
     \<and> thenListeners (runCatch ls (b, e) s) = thenListeners s"
  using assms
proof (induction ls arbitrary: s m L)
  case Nil
  then show ?case by simp
next
  case (Cons x ls)
  obtain q b' where x: "x = (q, b')" by (cases x)
  show ?case
  proof (cases "b' = b")
    case False
    then have same: "runCatch (x # ls) (b, e) s = runCatch ls (b, e) s"
      by (simp add: x onBatchFetchCatch_def)
    from False Cons.prems(1) have "filter (\<lambda>x. snd x = b) ls = map (\<lambda>p. (p, b)) L"
      by (simp add: x)
    then show ?thesis
      unfolding same by (rule Cons.IH [OF _ Cons.prems(2-6)])
  next
    case True
    from True Cons.prems(1) obtain L' where L: "L = q # L'"
      and rest: "filter (\<lambda>x. snd x = b) ls = map (\<lambda>p. (p, b)) L'"
      by (cases L) (auto simp add: x)
    have mem: "(q, b) \<in> set (catchListeners s)"
    proof -
      have "(q, b) \<in> set (filter (\<lambda>x. snd x = b) (catchListeners s))"
        by (simp add: Cons.prems(2) L)
      then show ?thesis by simp
    qed
    let ?s1 = "onBatchFetchCatch q b (b, e) s"
    have step: "runCatch (x # ls) (b, e) s = runCatch ls (b, e) ?s1"
      using mem by (simp add: x True)
    have q: "q < length (promises s)" "promises s ! q = Pending"
      using Cons.prems(6) by (simp_all add: L)
    note eff = onCatch_live [OF Cons.prems(3) q, of e]
    have inj: "inj (\<lambda>p. (p, b))"
      by (simp add: inj_def)
    have d: "distinct (q # L')"
      using Cons.prems(5) by (simp add: L)
    have tl1: "filter (\<lambda>x. snd x = b) (catchListeners ?s1) = map (\<lambda>p. (p, b)) L'"
      using filter_removeAll_self [OF d _ inj, of "\<lambda>x. snd x = b" "catchListeners s"] Cons.prems(2)
      by (simp add: eff(1) L)
    have pend: "\<forall>p\<in>set L'. p < length (promises ?s1) \<and> promises ?s1 ! p = Pending"
    proof
      fix p assume p: "p \<in> set L'"
      with d have "p \<noteq> q" by auto
      with p Cons.prems(6) show "p < length (promises ?s1) \<and> promises ?s1 ! p = Pending"
        by (simp add: eff(3) L)
    qed
    show ?thesis
    proof (cases "L' = []")
      case True
      with rest have "\<forall>x\<in>set ls. snd x \<noteq> b"
        by (simp add: filter_empty_conv)
      then have "runCatch ls (b, e) ?s1 = ?s1"
        by (rule runCatch_skip)
      with step have fin: "runCatch (x # ls) (b, e) s = ?s1"
        by simp
      have nm: "n = m + 1 \<longleftrightarrow> a = 0"
        using Cons.prems(4) by (auto simp add: L True)
      show ?thesis
        using q nm by (simp add: fin eff L True)
    next
      case False
      have lt: "n \<noteq> m + 1"
        using Cons.prems(4) False by (cases L') (simp_all add: L)
      have c1: "requestCounter ?s1 b = Some \<lparr>registered = n, aborted = a, processed = m + 1\<rparr>"
        using lt by (simp add: eff(4))
      have sum1: "a + (m + 1) + length L' = n"
        using Cons.prems(4) by (simp add: L)
      have d1: "distinct L'"
        using d by simp
      note ih = Cons.IH [OF rest tl1 c1 sum1 d1 pend]
      have qn: "q \<notin> set L'"
        using d by simp
      from ih qn q lt show ?thesis
        by (simp add: step eff L False)
    qed
  qed
qed

lemma filter_removeAll_pid:
  "filter P xs = map (\<lambda>p. (p, b)) L
     \<Longrightarrow> filter P (removeAll (q, b) xs) = map (\<lambda>p. (p, b)) (filter (\<lambda>p. p \<noteq> q) L)"
proof -
  assume f: "filter P xs = map (\<lambda>p. (p, b)) L"
  have "filter P (removeAll (q, b) xs) = filter (\<lambda>y. y \<noteq> (q, b)) (filter P xs)"
    by (induction xs) auto
  also have "\<dots> = map (\<lambda>p. (p, b)) (filter (\<lambda>p. p \<noteq> q) L)"
    by (simp add: f filter_map comp_def)
  finally show ?thesis .
qed

lemma onAbort_live:
  assumes "requestCounter s b = Some \<lparr>registered = n, aborted = a, processed = m\<rparr>"
    and "n \<noteq> a + 1"
    and "q < length (promises s)" and "promises s ! q = Pending"
  shows "onAbort q b e s =
           s\<lparr>thenListeners := removeAll (q, b) (thenListeners s),
             catchListeners := removeAll (q, b) (catchListeners s),
             requestCounter := (requestCounter s)
               (b \<mapsto> \<lparr>registered = n, aborted = a + 1, processed = m\<rparr>),
             promises := (promises s)[q := Rejected e]\<rparr>"
  using assms by (simp add: prim_defs v1_defs Let_def)

lemma abort_one:
  assumes g: "signals s g = None"
    and l: "filter (\<lambda>x. fst x = g) (abortListeners s) = [(g, q, b)]"
    and c: "requestCounter s b = Some \<lparr>registered = n, aborted = a, processed = m\<rparr>"
    and n: "n \<noteq> a + 1"
    and q: "q < length (promises s)" "promises s ! q = Pending"
  shows "abortSignal g e s =
           s\<lparr>signals := (signals s)(g \<mapsto> e),
             abortListeners := filter (\<lambda>x. fst x \<noteq> g) (abortListeners s),
             thenListeners := removeAll (q, b) (thenListeners s),
             catchListeners := removeAll (q, b) (catchListeners s),
             requestCounter := (requestCounter s)
               (b \<mapsto> \<lparr>registered = n, aborted = a + 1, processed = m\<rparr>),
             promises := (promises s)[q := Rejected e]\<rparr>"
proof -
  let ?s1 = "s\<lparr>signals := (signals s)(g \<mapsto> e),
                abortListeners := filter (\<lambda>x. fst x \<noteq> g) (abortListeners s)\<rparr>"
  have "abortSignal g e s = onAbort q b e ?s1"
    using g l by (simp add: abortSignal_def)
  also have "\<dots> = ?s1\<lparr>thenListeners := removeAll (q, b) (thenListeners ?s1),
             catchListeners := removeAll (q, b) (catchListeners ?s1),
             requestCounter := (requestCounter ?s1)
               (b \<mapsto> \<lparr>registered = n, aborted = a + 1, processed = m\<rparr>),
             promises := (promises ?s1)[q := Rejected e]\<rparr>"
    using c n q by (intro onAbort_live) simp_all
  finally show ?thesis by simp
qed

lemma filter_other_signal:
  "g' \<noteq> g \<Longrightarrow> filter (\<lambda>x. fst x = g') (filter (\<lambda>x. fst x \<noteq> g) xs) = filter (\<lambda>x. fst x = g') xs"
  by (induction xs) auto

lemma filter_other_signal':
  "g' \<noteq> g \<Longrightarrow> filter (\<lambda>x. fst x \<noteq> g \<and> fst x = g') xs = filter (\<lambda>x. fst x = g') xs"
  by (induction xs) auto

lemma filter_neq_absent: "q \<notin> set L \<Longrightarrow> filter (\<lambda>p. p \<noteq> q) L = L"
  by (induction L) auto

lemma length_filter_neq:
  "distinct L \<Longrightarrow> q \<in> set L \<Longrightarrow> Suc (length (filter (\<lambda>p. p \<noteq> q) L)) = length L"
  by (induction L) (auto simp add: filter_neq_absent)

lemma filter_notin_insert:
  "filter (\<lambda>p. p \<notin> A) (filter (\<lambda>p. p \<noteq> q) L) = filter (\<lambda>p. p \<notin> insert q A) L"
  by (induction L) auto

lemma abort_one_waiting:
  assumes w: "waiting b n a L s" and two: "2 \<le> length L"
    and g: "signals s g = None"
    and l: "filter (\<lambda>x. fst x = g) (abortListeners s) = [(g, q, b)]"
    and q: "q \<in> set L"
  shows "waiting b n (a + 1) (filter (\<lambda>p. p \<noteq> q) L) (abortSignal g e s)"
    and "frame s (abortSignal g e s)"
    and "promises (abortSignal g e s) = (promises s)[q := Rejected e]"
    and "signals (abortSignal g e s) = (signals s)(g \<mapsto> e)"
    and "abortListeners (abortSignal g e s) = filter (\<lambda>x. fst x \<noteq> g) (abortListeners s)"
proof -
  from w have c: "requestCounter s b = Some \<lparr>registered = n, aborted = a, processed = 0\<rparr>"
    and sum: "a + length L = n" and d: "distinct L"
    and t: "filter (\<lambda>x. snd x = b) (thenListeners s) = map (\<lambda>p. (p, b)) L"
    and k: "filter (\<lambda>x. snd x = b) (catchListeners s) = map (\<lambda>p. (p, b)) L"
    and p: "\<forall>p\<in>set L. p < length (promises s) \<and> promises s ! p = Pending"
    by (simp_all add: waiting_def)
  from sum two have n: "n \<noteq> a + 1" by simp
  from p q have qp: "q < length (promises s)" "promises s ! q = Pending" by simp_all
  note eq = abort_one [OF g l c n qp, of e]
  show "frame s (abortSignal g e s)"
    by (simp add: eq frame_def)
  show "promises (abortSignal g e s) = (promises s)[q := Rejected e]"
    by (simp add: eq)
  show "signals (abortSignal g e s) = (signals s)(g \<mapsto> e)"
    by (simp add: eq)
  show "abortListeners (abortSignal g e s) = filter (\<lambda>x. fst x \<noteq> g) (abortListeners s)"
    by (simp add: eq)
  have len: "Suc (length (filter (\<lambda>p. p \<noteq> q) L)) = length L"
    using d q by (rule length_filter_neq)
  have pend: "\<forall>p\<in>set (filter (\<lambda>p. p \<noteq> q) L).
                p < length ((promises s)[q := Rejected e]) \<and> (promises s)[q := Rejected e] ! p = Pending"
    using p by simp
  show "waiting b n (a + 1) (filter (\<lambda>p. p \<noteq> q) L) (abortSignal g e s)"
    unfolding waiting_def
    using sum len d pend filter_removeAll_pid [OF t, of q] filter_removeAll_pid [OF k, of q]
    by (simp add: eq)
qed

lemma cancels_waiting:
  fixes tr :: "(nat \<times> jserror \<times> nat) list"
  assumes "waiting b n a L s" and "length tr < length L"
    and "distinct (map fst tr)" and "distinct (map (\<lambda>x. P + snd (snd x)) tr)"
    and "\<forall>x\<in>set tr. signals s (fst x) = None
           \<and> filter (\<lambda>y. fst y = fst x) (abortListeners s) = [(fst x, P + snd (snd x), b)]
           \<and> P + snd (snd x) \<in> set L"
  shows "\<exists>s'. run hash (map (\<lambda>x. Abort (fst x) (fst (snd x))) tr) s = Some s'
     \<and> waiting b n (a + length tr) (filter (\<lambda>p. p \<notin> (\<lambda>x. P + snd (snd x)) ` set tr) L) s'
     \<and> frame s s'
     \<and> length (promises s') = length (promises s)
     \<and> (\<forall>x\<in>set tr. promises s' ! (P + snd (snd x)) = Rejected (fst (snd x)))
     \<and> (\<forall>p. p \<notin> (\<lambda>x. P + snd (snd x)) ` set tr \<longrightarrow> promises s' ! p = promises s ! p)
     \<and> (\<forall>g. g \<notin> fst ` set tr \<longrightarrow> signals s' g = signals s g
            \<and> filter (\<lambda>y. fst y = g) (abortListeners s') = filter (\<lambda>y. fst y = g) (abortListeners s))"
  using assms
proof (induction tr arbitrary: s a L)
  case Nil
  then show ?case by (simp add: frame_def)
next
  case (Cons x tr)
  let ?g = "fst x"
  let ?e = "fst (snd x)"
  let ?q = "P + snd (snd x)"
  let ?s1 = "abortSignal ?g ?e s"
  let ?L1 = "filter (\<lambda>p. p \<noteq> ?q) L"
  let ?pid = "\<lambda>x :: nat \<times> jserror \<times> nat. P + snd (snd x)"
  from Cons.prems(5) have g: "signals s ?g = None"
    and l: "filter (\<lambda>y. fst y = ?g) (abortListeners s) = [(?g, ?q, b)]" and q: "?q \<in> set L"
    by simp_all
  from Cons.prems(2) have two: "2 \<le> length L" by simp
  note one = abort_one_waiting [OF Cons.prems(1) two g l q, of ?e]
  from Cons.prems(1) have d: "distinct L" and pq: "?q < length (promises s)"
    using q by (simp_all add: waiting_def)
  have len: "Suc (length ?L1) = length L"
    using d q by (rule length_filter_neq)
  have p2: "length tr < length ?L1"
    using Cons.prems(2) len by simp
  have p3: "distinct (map fst tr)" and p4: "distinct (map ?pid tr)"
    using Cons.prems(3,4) by simp_all
  have gn: "?g \<notin> fst ` set tr" and qn: "?q \<notin> ?pid ` set tr"
    using Cons.prems(3,4) by simp_all
  have p5: "\<forall>y\<in>set tr. signals ?s1 (fst y) = None
           \<and> filter (\<lambda>z. fst z = fst y) (abortListeners ?s1) = [(fst y, ?pid y, b)]
           \<and> ?pid y \<in> set ?L1"
  proof
    fix y assume y: "y \<in> set tr"
    from y have "fst y \<in> fst ` set tr" and "?pid y \<in> ?pid ` set tr"
      by (rule imageI)+
    with gn qn have ne: "fst y \<noteq> ?g" and nq: "?pid y \<noteq> ?q"
      by metis+
    from y Cons.prems(5) have "signals s (fst y) = None"
      and "filter (\<lambda>z. fst z = fst y) (abortListeners s) = [(fst y, ?pid y, b)]"
      and "?pid y \<in> set L"
      by simp_all
    with ne nq show "signals ?s1 (fst y) = None
           \<and> filter (\<lambda>z. fst z = fst y) (abortListeners ?s1) = [(fst y, ?pid y, b)]
           \<and> ?pid y \<in> set ?L1"
      by (simp add: one(4,5) filter_other_signal')
  qed
  from Cons.IH [OF one(1) p2 p3 p4 p5] obtain s' where
    r: "run hash (map (\<lambda>x. Abort (fst x) (fst (snd x))) tr) ?s1 = Some s'"
    and w: "waiting b n (a + 1 + length tr) (filter (\<lambda>p. p \<notin> ?pid ` set tr) ?L1) s'"
    and f: "frame ?s1 s'"
    and pl: "length (promises s') = length (promises ?s1)"
    and pr: "\<forall>x\<in>set tr. promises s' ! ?pid x = Rejected (fst (snd x))"
    and po: "\<forall>p. p \<notin> ?pid ` set tr \<longrightarrow> promises s' ! p = promises ?s1 ! p"
    and sg: "\<forall>g. g \<notin> fst ` set tr \<longrightarrow> signals s' g = signals ?s1 g
            \<and> filter (\<lambda>y. fst y = g) (abortListeners s') = filter (\<lambda>y. fst y = g) (abortListeners ?s1)"
    by blast
  have c1: "run hash (map (\<lambda>x. Abort (fst x) (fst (snd x))) (x # tr)) s = Some s'"
    using r by simp
  have c2: "waiting b n (a + length (x # tr)) (filter (\<lambda>p. p \<notin> ?pid ` set (x # tr)) L) s'"
    using w by (simp add: filter_notin_insert)
  have c3: "frame s s'"
    using f one(2) by (simp add: frame_def)
  have c4: "length (promises s') = length (promises s)"
    using pl by (simp add: one(3))
  have c5: "\<forall>y\<in>set (x # tr). promises s' ! ?pid y = Rejected (fst (snd y))"
    using pr po qn pq by (simp add: one(3))
  have c6: "\<forall>p. p \<notin> ?pid ` set (x # tr) \<longrightarrow> promises s' ! p = promises s ! p"
    using po by (simp add: one(3))
  have c7: "\<forall>g'. g' \<notin> fst ` set (x # tr) \<longrightarrow> signals s' g' = signals s g'
            \<and> filter (\<lambda>y. fst y = g') (abortListeners s') = filter (\<lambda>y. fst y = g') (abortListeners s)"
    using sg by (simp add: one(4,5) filter_other_signal')
  from c1 c2 c3 c4 c5 c6 c7 show ?case by blast
qed

lemma fire_effect:
  assumes "0 < t" and "t \<le> length (timers s)"
    and "timers s ! (t - 1) = \<lparr>deadline = D, batch = b, armed = True\<rparr>"
    and "D \<le> now s" and "requestPayload s b = Some \<lparr>url = u, options = p\<rparr>"
  shows "fireTimer t s =
           Some (s\<lparr>timers := (timers s)[t - 1 := \<lparr>deadline = D, batch = b, armed = False\<rparr>],
                   controllers := controllers s @ [False],
                   requestSignals := (requestSignals s)(b \<mapsto> length (controllers s)),
                   fetches := fetches s @
                     [\<lparr>f_url = u, f_options = Some p, f_signal = BatchSignal (length (controllers s)),
                       f_sink = ToBatch b, f_done = False\<rparr>]\<rparr>)"
  using assms by (simp add: fireTimer_def dispatchRequest_def clearTimeout_def fetch_def Let_def)

lemma settle_waiting:
  assumes w: "waiting b n a L s"
    and i: "i < length (fetches s)"
    and f: "fetches s ! i = \<lparr>f_url = u, f_options = Some p, f_signal = BatchSignal c,
                              f_sink = ToBatch b, f_done = False\<rparr>"
    and c: "c < length (controllers s)" "\<not> controllers s ! c"
    and out: "\<forall>e. out = Failure e \<longrightarrow> ename e \<noteq> ''AbortError''"
  shows "\<exists>s'. settleFetch i out s = Some s'
     \<and> (\<forall>p\<in>set L. promises s' ! p = delivered out)
     \<and> length (promises s') = length (promises s)
     \<and> (\<forall>q. q \<notin> set L \<longrightarrow> promises s' ! q = promises s ! q)
     \<and> requestCounter s' b
         = (if L \<noteq> [] \<and> a = 0 then None
            else Some \<lparr>registered = n, aborted = a, processed = length L\<rparr>)
     \<and> requestSignals s' b = (if L \<noteq> [] \<and> a = 0 then None else requestSignals s b)
     \<and> uncaught s' = uncaught s
     \<and> fetches s' = (fetches s)[i := (fetches s ! i)\<lparr>f_done := True\<rparr>]
     \<and> controllers s' = controllers s"
proof -
  let ?s1 = "s\<lparr>fetches := (fetches s)[i := (fetches s ! i)\<lparr>f_done := True\<rparr>]\<rparr>"
  from w have cn: "requestCounter ?s1 b = Some \<lparr>registered = n, aborted = a, processed = 0\<rparr>"
    and sum: "a + 0 + length L = n" and d: "distinct L"
    and t: "filter (\<lambda>x. snd x = b) (thenListeners ?s1) = map (\<lambda>p. (p, b)) L"
    and k: "filter (\<lambda>x. snd x = b) (catchListeners ?s1) = map (\<lambda>p. (p, b)) L"
    and pd: "\<forall>p\<in>set L. p < length (promises ?s1) \<and> promises ?s1 ! p = Pending"
    by (simp_all add: waiting_def)
  have res: "\<And>w. fetchResult \<lparr>f_url = u, f_options = Some p, f_signal = BatchSignal c,
                              f_sink = ToBatch b, f_done = False\<rparr> w s = w"
    using c by (simp add: fetchResult_def)
  show ?thesis
  proof (cases out)
    case (Response r)
    have "settleFetch i out s = Some (runThen (thenListeners ?s1) (b, r) ?s1)"
      using i by (simp add: settleFetch_def res Let_def dispatchRequest_settled_def Response f)
    moreover note runThen_live [OF t t cn sum d pd, of r]
    ultimately show ?thesis
      by (simp add: delivered_def Response)
  next
    case (Failure e)
    with out have ne: "ename e \<noteq> ''AbortError''" by simp
    have "settleFetch i out s = Some (runCatch (catchListeners ?s1) (b, e) ?s1)"
      using i ne by (simp add: settleFetch_def res Let_def dispatchRequest_settled_def Failure f)
    moreover note runCatch_live [OF k k cn sum d pd, of e]
    ultimately show ?thesis
      by (simp add: delivered_def Failure)
  qed
qed

lemma concat_single:
  "i < n \<Longrightarrow> concat (map (\<lambda>j. if j = i then [x] else []) [0..<n]) = [x]"
proof (induction n)
  case 0
  then show ?case by simp
next
  case (Suc n)
  show ?case
  proof (cases "i = n")
    case True
    have "concat (map (\<lambda>j. if j = i then [x] else []) [0..<n]) = []"
      using True by simp
    then show ?thesis using True by simp
  next
    case False
    with Suc show ?thesis by simp
  qed
qed

lemma abort_listener_of_caller:
  assumes fresh: "\<forall>y\<in>set old. fst y \<noteq> g"
    and i: "i < length cs"
    and uniq: "\<forall>j<length cs. snd (cs ! j) = Some g \<longleftrightarrow> j = i"
  shows "filter (\<lambda>y. fst y = g)
           (old @ concat (map (\<lambda>j. case snd (cs ! j) of None \<Rightarrow> []
                                    | Some h \<Rightarrow> [(h, P + j, b)]) [0..<length cs]))
         = [(g, P + i, b)]"
proof -
  have a: "filter (\<lambda>y. fst y = g) old = []"
    using fresh by (simp add: filter_empty_conv)
  have "map (\<lambda>j. filter (\<lambda>y. fst y = g)
                   (case snd (cs ! j) of None \<Rightarrow> [] | Some h \<Rightarrow> [(h, P + j, b)])) [0..<length cs]
        = map (\<lambda>j. if j = i then [(g, P + i, b)] else []) [0..<length cs]"
    using uniq by (auto split: option.splits)
  note m = this
  have "filter (\<lambda>y. fst y = g)
           (concat (map (\<lambda>j. case snd (cs ! j) of None \<Rightarrow> []
                                    | Some h \<Rightarrow> [(h, P + j, b)]) [0..<length cs]))
        = concat (map (\<lambda>j. filter (\<lambda>y. fst y = g)
                   (case snd (cs ! j) of None \<Rightarrow> [] | Some h \<Rightarrow> [(h, P + j, b)])) [0..<length cs])"
    by (simp add: filter_concat comp_def)
  also have "\<dots> = concat (map (\<lambda>j. if j = i then [(g, P + i, b)] else []) [0..<length cs])"
    by (simp only: m)
  also have "\<dots> = [(g, P + i, b)]"
    using i by (rule concat_single)
  finally show ?thesis using a by simp
qed

lemma distinct_map_transfer:
  assumes "distinct (map f xs)"
    and "\<forall>x\<in>set xs. \<forall>y\<in>set xs. g x = g y \<longrightarrow> f x = f y"
  shows "distinct (map g xs)"
proof -
  from assms(1) have d: "distinct xs" and i: "inj_on f (set xs)"
    by (simp_all add: distinct_map)
  have "inj_on g (set xs)"
  proof (rule inj_onI)
    fix x y assume x: "x \<in> set xs" and y: "y \<in> set xs" and e: "g x = g y"
    with assms(2) have "f x = f y" by blast
    from inj_onD [OF i this x y] show "x = y" .
  qed
  with d show ?thesis by (simp add: distinct_map)
qed

lemma waiting_after_joins:
  assumes "thenListeners s1 = thenListeners s @ map (\<lambda>i. (length (promises s) + i, b)) [0..<n]"
    and "catchListeners s1 = catchListeners s @ map (\<lambda>i. (length (promises s) + i, b)) [0..<n]"
    and "\<forall>x\<in>set (thenListeners s). snd x \<noteq> b" and "\<forall>x\<in>set (catchListeners s). snd x \<noteq> b"
    and "requestCounter s1 b = Some \<lparr>registered = n, aborted = 0, processed = 0\<rparr>"
    and "promises s1 = promises s @ replicate n Pending"
  shows "waiting b n 0 (map (\<lambda>i. length (promises s) + i) [0..<n]) s1"
proof -
  have a: "filter (\<lambda>x. snd x = b) (thenListeners s) = []"
    "filter (\<lambda>x. snd x = b) (catchListeners s) = []"
    using assms(3,4) by (simp_all add: filter_empty_conv)
  have d: "distinct (map (\<lambda>i. length (promises s) + i) [0..<n])"
    by (simp add: distinct_map inj_on_def)
  have pd: "\<forall>q\<in>set (map (\<lambda>i. length (promises s) + i) [0..<n]).
              q < length (promises s1) \<and> promises s1 ! q = Pending"
    by (auto simp add: assms(6) nth_append)
  have f: "filter (\<lambda>x. snd x = b) (thenListeners s1)
             = map (\<lambda>p. (p, b)) (map (\<lambda>i. length (promises s) + i) [0..<n])"
    "filter (\<lambda>x. snd x = b) (catchListeners s1)
             = map (\<lambda>p. (p, b)) (map (\<lambda>i. length (promises s) + i) [0..<n])"
    using a by (simp_all add: assms(1,2) filter_map comp_def)
  have l: "0 + length (map (\<lambda>i. length (promises s) + i) [0..<n]) = n"
    by simp
  show ?thesis
    unfolding waiting_def
    by (intro conjI) (fact assms(5) l d f pd)+
qed

lemma batch_run:
  fixes tr1 tr2 :: "(nat \<times> jserror \<times> nat) list"
  assumes i1: "requestSignals s b = None" and i2: "requestCounter s b = None"
    and i3: "requestPayload s b = None" and b: "b = hash ''otherOptions'' u p"
    and i4: "\<forall>x\<in>set (thenListeners s). snd x \<noteq> b"
    and i5: "\<forall>x\<in>set (catchListeners s). snd x \<noteq> b"
    and ne: "cs \<noteq> []"
    and dg: "distinct (map fst (tr1 @ tr2))"
    and own: "\<forall>x\<in>set (tr1 @ tr2). signals s (fst x) = None
                \<and> (\<forall>y\<in>set (abortListeners s). fst y \<noteq> fst x)
                \<and> snd (snd x) < length cs
                \<and> (\<forall>j<length cs. snd (cs ! j) = Some (fst x) \<longleftrightarrow> j = snd (snd x))"
    and lt: "length (tr1 @ tr2) < length cs"
    and out: "\<forall>e. out = Failure e \<longrightarrow> ename e \<noteq> ''AbortError''"
  shows "\<exists>s'. run hash (joins u p cs @ map (\<lambda>x. Abort (fst x) (fst (snd x))) tr1
                     @ [Advance 500, TimerFire (length (timers s) + length cs)]
                     @ map (\<lambda>x. Abort (fst x) (fst (snd x))) tr2
                     @ [Settle (length (fetches s)) out]) s = Some s'
     \<and> fetches s' = fetches s @
          [\<lparr>f_url = u, f_options = Some p, f_signal = BatchSignal (length (controllers s)),
            f_sink = ToBatch b, f_done = True\<rparr>]
     \<and> controllers s' = controllers s @ [False]
     \<and> uncaught s' = uncaught s
     \<and> length (promises s') = length (promises s) + length cs
     \<and> (\<forall>x\<in>set (tr1 @ tr2).
           promises s' ! (length (promises s) + snd (snd x)) = Rejected (fst (snd x)))
     \<and> (\<forall>i<length cs. i \<notin> (\<lambda>x. snd (snd x)) ` set (tr1 @ tr2) \<longrightarrow>
           promises s' ! (length (promises s) + i) = delivered out)
     \<and> (\<forall>q<length (promises s). promises s' ! q = promises s ! q)
     \<and> (tr1 @ tr2 = [] \<longrightarrow> requestCounter s' b = None \<and> requestSignals s' b = None)"
proof -
  let ?P = "length (promises s)"
  let ?n = "length cs"
  let ?L0 = "map (\<lambda>i. ?P + i) [0..<?n]"
  let ?ev = "\<lambda>tr :: (nat \<times> jserror \<times> nat) list. map (\<lambda>x. Abort (fst x) (fst (snd x))) tr"
  let ?pid = "\<lambda>tr :: (nat \<times> jserror \<times> nat) list. (\<lambda>x. ?P + snd (snd x)) ` set tr"
  let ?rec = "\<lparr>f_url = u, f_options = Some p, f_signal = BatchSignal (length (controllers s)),
               f_sink = ToBatch b, f_done = False\<rparr>"

  \<comment> \<open>the calls\<close>
  from joins_effect [where hash = hash and u = u and p = p and cs = cs, OF i1 i2 i3 b]
  obtain s1 where
    r1: "run hash (joins u p cs) s = Some s1"
    and g1: "requestSignals s1 = requestSignals s" and k1: "controllers s1 = controllers s"
    and sg1: "signals s1 = signals s" and f1: "fetches s1 = fetches s"
    and u1: "uncaught s1 = uncaught s"
    and t1: "length (timers s1) = length (timers s) + ?n"
    and p1: "promises s1 = promises s @ replicate ?n Pending"
    and th1: "thenListeners s1 = thenListeners s @ map (\<lambda>i. (?P + i, b)) [0..<?n]"
    and ca1: "catchListeners s1 = catchListeners s @ map (\<lambda>i. (?P + i, b)) [0..<?n]"
    and ab1: "abortListeners s1 = abortListeners s
          @ concat (map (\<lambda>i. case snd (cs ! i) of None \<Rightarrow> []
                              | Some g \<Rightarrow> [(g, ?P + i, b)]) [0..<?n])"
    and rest: "cs \<noteq> [] \<longrightarrow>
          requestCounter s1 b = Some \<lparr>registered = length cs, aborted = 0, processed = 0\<rparr>
        \<and> requestPayload s1 b = Some \<lparr>url = u, options = p\<rparr>
        \<and> requestDebounce s1 b = Some (length (timers s1))
        \<and> timers s1 ! (length (timers s1) - 1)
            = \<lparr>deadline = now s1 + 500, batch = b, armed = True\<rparr>"
    by (elim exE conjE) (rule that)
  from rest ne have cn1: "requestCounter s1 b = Some \<lparr>registered = ?n, aborted = 0, processed = 0\<rparr>"
    and pl1: "requestPayload s1 b = Some \<lparr>url = u, options = p\<rparr>"
    and db1: "requestDebounce s1 b = Some (length (timers s1))"
    and tm1: "timers s1 ! (length (timers s1) - 1)
            = \<lparr>deadline = now s1 + 500, batch = b, armed = True\<rparr>"
    by simp_all
  have w1: "waiting b ?n 0 ?L0 s1"
    using th1 ca1 i4 i5 cn1 p1 by (rule waiting_after_joins)
  have al: "\<forall>x\<in>set (tr1 @ tr2).
              filter (\<lambda>y. fst y = fst x) (abortListeners s1) = [(fst x, ?P + snd (snd x), b)]"
  proof
    fix x assume x: "x \<in> set (tr1 @ tr2)"
    with own have "\<forall>y\<in>set (abortListeners s). fst y \<noteq> fst x" and "snd (snd x) < length cs"
      and "\<forall>j<length cs. snd (cs ! j) = Some (fst x) \<longleftrightarrow> j = snd (snd x)"
      by blast+
    then show "filter (\<lambda>y. fst y = fst x) (abortListeners s1) = [(fst x, ?P + snd (snd x), b)]"
      unfolding ab1 by (rule abort_listener_of_caller)
  qed
  have di: "distinct (map (\<lambda>x. ?P + snd (snd x)) (tr1 @ tr2))"
  proof (rule distinct_map_transfer [OF dg], intro ballI impI)
    fix x y assume x: "x \<in> set (tr1 @ tr2)" and y: "y \<in> set (tr1 @ tr2)"
      and e: "?P + snd (snd x) = ?P + snd (snd y)"
    from own x have "snd (snd x) < length cs"
      and "\<forall>j<length cs. snd (cs ! j) = Some (fst x) \<longleftrightarrow> j = snd (snd x)" by blast+
    then have 1: "snd (cs ! snd (snd x)) = Some (fst x)" by simp
    from own y have "snd (snd y) < length cs"
      and "\<forall>j<length cs. snd (cs ! j) = Some (fst y) \<longleftrightarrow> j = snd (snd y)" by blast+
    then have 2: "snd (cs ! snd (snd y)) = Some (fst y)" by simp
    from e 1 2 show "fst x = fst y" by simp
  qed
  have ix: "\<forall>x\<in>set (tr1 @ tr2). snd (snd x) < ?n"
    using own by blast
  have s0: "\<forall>x\<in>set (tr1 @ tr2). signals s (fst x) = None"
    using own by blast

  \<comment> \<open>the cancellations before the timer fires\<close>
  have a1: "length tr1 < length ?L0"
    using lt by simp
  have a2: "distinct (map fst tr1)"
    using dg by simp
  have a3: "distinct (map (\<lambda>x. ?P + snd (snd x)) tr1)"
    using di by simp
  have a4: "\<forall>x\<in>set tr1. signals s1 (fst x) = None
           \<and> filter (\<lambda>y. fst y = fst x) (abortListeners s1) = [(fst x, ?P + snd (snd x), b)]
           \<and> ?P + snd (snd x) \<in> set ?L0"
  proof
    fix x assume "x \<in> set tr1"
    then have x: "x \<in> set (tr1 @ tr2)" by simp
    from x al have 1: "filter (\<lambda>y. fst y = fst x) (abortListeners s1) = [(fst x, ?P + snd (snd x), b)]"
      by blast
    from x s0 have 2: "signals s1 (fst x) = None"
      by (simp add: sg1)
    from x ix have "snd (snd x) < ?n" by blast
    then have 3: "?P + snd (snd x) \<in> set ?L0" by simp
    from 1 2 3 show "signals s1 (fst x) = None
           \<and> filter (\<lambda>y. fst y = fst x) (abortListeners s1) = [(fst x, ?P + snd (snd x), b)]
           \<and> ?P + snd (snd x) \<in> set ?L0"
      by blast
  qed
  from cancels_waiting [where hash = hash and P = ?P, OF w1 a1 a2 a3 a4] obtain s2 where
    r2: "run hash (?ev tr1) s1 = Some s2"
    and w2: "waiting b ?n (length tr1) (filter (\<lambda>p. p \<notin> ?pid tr1) ?L0) s2"
    and fr2: "frame s1 s2"
    and pl2: "length (promises s2) = length (promises s1)"
    and pr2: "\<forall>x\<in>set tr1. promises s2 ! (?P + snd (snd x)) = Rejected (fst (snd x))"
    and po2: "\<forall>q. q \<notin> ?pid tr1 \<longrightarrow> promises s2 ! q = promises s1 ! q"
    and sg2: "\<forall>g. g \<notin> fst ` set tr1 \<longrightarrow> signals s2 g = signals s1 g
            \<and> filter (\<lambda>y. fst y = g) (abortListeners s2) = filter (\<lambda>y. fst y = g) (abortListeners s1)"
    by (simp only: add_0) blast
  let ?L1 = "filter (\<lambda>p. p \<notin> ?pid tr1) ?L0"

  \<comment> \<open>the timer fires\<close>
  let ?s3 = "s2\<lparr>now := now s2 + 500\<rparr>"
  let ?t = "length (timers s) + ?n"
  from fr2 have e2: "timers s2 = timers s1" "now s2 = now s1" "controllers s2 = controllers s1"
    "fetches s2 = fetches s1" "requestPayload s2 = requestPayload s1"
    "requestSignals s2 = requestSignals s1" "uncaught s2 = uncaught s1"
    by (simp_all add: frame_def)
  have tpos: "0 < ?t" using ne by simp
  have "fireTimer ?t ?s3 =
           Some (?s3\<lparr>timers := (timers ?s3)[?t - 1 := \<lparr>deadline = now s1 + 500, batch = b, armed = False\<rparr>],
                   controllers := controllers ?s3 @ [False],
                   requestSignals := (requestSignals ?s3)(b \<mapsto> length (controllers ?s3)),
                   fetches := fetches ?s3 @
                     [\<lparr>f_url = u, f_options = Some p, f_signal = BatchSignal (length (controllers ?s3)),
                       f_sink = ToBatch b, f_done = False\<rparr>]\<rparr>)"
    using tpos tm1 pl1 by (intro fire_effect) (simp_all add: e2 t1)
  then obtain s4 where
    r3: "fireTimer ?t ?s3 = Some s4"
    and s4: "s4 = ?s3\<lparr>timers := (timers ?s3)[?t - 1 := \<lparr>deadline = now s1 + 500, batch = b, armed = False\<rparr>],
                   controllers := controllers ?s3 @ [False],
                   requestSignals := (requestSignals ?s3)(b \<mapsto> length (controllers ?s3)),
                   fetches := fetches ?s3 @
                     [\<lparr>f_url = u, f_options = Some p, f_signal = BatchSignal (length (controllers ?s3)),
                       f_sink = ToBatch b, f_done = False\<rparr>]\<rparr>"
    by blast
  have w4: "waiting b ?n (length tr1) ?L1 s4"
    using w2 by (simp add: s4 waiting_def)
  have e4: "controllers s4 = controllers s @ [False]" "fetches s4 = fetches s @ [?rec]"
    "uncaught s4 = uncaught s" "promises s4 = promises s2" "signals s4 = signals s2"
    "abortListeners s4 = abortListeners s2"
    by (simp_all add: s4 e2 k1 f1 u1)

  \<comment> \<open>the cancellations while the request is in flight\<close>
  have len1: "length tr1 + length ?L1 = ?n"
    using w2 by (simp add: waiting_def)
  have b1: "length tr2 < length ?L1"
    using lt len1 by simp
  have b2: "distinct (map fst tr2)"
    using dg by simp
  have b3: "distinct (map (\<lambda>x. ?P + snd (snd x)) tr2)"
    using di by simp
  have dis1: "\<forall>x\<in>set tr2. fst x \<notin> fst ` set tr1"
    using dg by auto
  have dis2: "\<forall>x\<in>set tr2. ?P + snd (snd x) \<notin> ?pid tr1"
    using di by auto
  have b4: "\<forall>x\<in>set tr2. signals s4 (fst x) = None
           \<and> filter (\<lambda>y. fst y = fst x) (abortListeners s4) = [(fst x, ?P + snd (snd x), b)]
           \<and> ?P + snd (snd x) \<in> set ?L1"
  proof
    fix x assume x2: "x \<in> set tr2"
    then have x: "x \<in> set (tr1 @ tr2)" by simp
    from x2 dis1 have n1: "fst x \<notin> fst ` set tr1" by blast
    from x2 dis2 have n2: "?P + snd (snd x) \<notin> ?pid tr1" by blast
    from n1 sg2 have k: "signals s2 (fst x) = signals s1 (fst x)"
      "filter (\<lambda>y. fst y = fst x) (abortListeners s2) = filter (\<lambda>y. fst y = fst x) (abortListeners s1)"
      by blast+
    from x al have 1: "filter (\<lambda>y. fst y = fst x) (abortListeners s4) = [(fst x, ?P + snd (snd x), b)]"
      by (simp add: e4 k)
    from x s0 have 2: "signals s4 (fst x) = None"
      by (simp add: e4 k sg1)
    from x ix have "snd (snd x) < ?n" by blast
    with n2 have 3: "?P + snd (snd x) \<in> set ?L1" by simp
    from 1 2 3 show "signals s4 (fst x) = None
           \<and> filter (\<lambda>y. fst y = fst x) (abortListeners s4) = [(fst x, ?P + snd (snd x), b)]
           \<and> ?P + snd (snd x) \<in> set ?L1"
      by blast
  qed
  from cancels_waiting [where hash = hash and P = ?P, OF w4 b1 b2 b3 b4] obtain s5 where
    r4: "run hash (?ev tr2) s4 = Some s5"
    and w5: "waiting b ?n (length tr1 + length tr2) (filter (\<lambda>p. p \<notin> ?pid tr2) ?L1) s5"
    and fr5: "frame s4 s5"
    and pl5: "length (promises s5) = length (promises s4)"
    and pr5: "\<forall>x\<in>set tr2. promises s5 ! (?P + snd (snd x)) = Rejected (fst (snd x))"
    and po5: "\<forall>q. q \<notin> ?pid tr2 \<longrightarrow> promises s5 ! q = promises s4 ! q"
    by blast
  let ?L2 = "filter (\<lambda>p. p \<notin> ?pid tr2) ?L1"
  from fr5 have e5: "controllers s5 = controllers s4" "fetches s5 = fetches s4"
    "uncaught s5 = uncaught s4"
    by (simp_all add: frame_def)

  \<comment> \<open>the request settles\<close>
  have c1: "length (fetches s) < length (fetches s5)"
    by (simp add: e5 e4)
  have c2: "fetches s5 ! length (fetches s) = ?rec"
    by (simp add: e5 e4)
  have c3: "length (controllers s) < length (controllers s5)"
    "\<not> controllers s5 ! length (controllers s)"
    by (simp_all add: e5 e4)
  from settle_waiting [OF w5 c1 c2 c3 out] obtain s6 where
    r5: "settleFetch (length (fetches s)) out s5 = Some s6"
    and d6: "\<forall>q\<in>set ?L2. promises s6 ! q = delivered out"
    and pl6: "length (promises s6) = length (promises s5)"
    and po6: "\<forall>q. q \<notin> set ?L2 \<longrightarrow> promises s6 ! q = promises s5 ! q"
    and cn6: "requestCounter s6 b
         = (if ?L2 \<noteq> [] \<and> length tr1 + length tr2 = 0 then None
            else Some \<lparr>registered = ?n, aborted = length tr1 + length tr2, processed = length ?L2\<rparr>)"
    and g6: "requestSignals s6 b
         = (if ?L2 \<noteq> [] \<and> length tr1 + length tr2 = 0 then None else requestSignals s5 b)"
    and u6: "uncaught s6 = uncaught s5"
    and f6: "fetches s6 = (fetches s5)[length (fetches s) := (fetches s5 ! length (fetches s))\<lparr>f_done := True\<rparr>]"
    and k6: "controllers s6 = controllers s5"
    by blast

  \<comment> \<open>putting the run together\<close>
  have q1: "run hash (joins u p cs @ ?ev tr1 @ [Advance 500, TimerFire ?t] @ ?ev tr2
                     @ [Settle (length (fetches s)) out]) s = Some s6"
    by (simp add: run_append r1 r2 r3 r4 r5)
  have q2: "fetches s6 = fetches s @ [?rec\<lparr>f_done := True\<rparr>]"
    by (simp add: f6 e5 e4)
  have q3: "controllers s6 = controllers s @ [False]"
    by (simp add: k6 e5 e4)
  have q4: "uncaught s6 = uncaught s"
    by (simp add: u6 e5 e4)
  have q5: "length (promises s6) = ?P + ?n"
    by (simp add: pl6 pl5 e4 pl2 p1)
  have mem2: "\<And>q. q \<in> set ?L2 \<longleftrightarrow> ?P \<le> q \<and> q < ?P + ?n \<and> q \<notin> ?pid tr1 \<and> q \<notin> ?pid tr2"
    by auto
  have q6: "\<forall>x\<in>set (tr1 @ tr2). promises s6 ! (?P + snd (snd x)) = Rejected (fst (snd x))"
  proof
    fix x assume x: "x \<in> set (tr1 @ tr2)"
    let ?q = "?P + snd (snd x)"
    have n2: "?q \<notin> set ?L2"
      using x by (auto simp add: mem2)
    show "promises s6 ! ?q = Rejected (fst (snd x))"
    proof (cases "x \<in> set tr1")
      case True
      then have "?q \<notin> ?pid tr2"
        using di by auto
      with True n2 show ?thesis
        using po6 po5 pr2 by (simp add: e4)
    next
      case False
      with x have "x \<in> set tr2" by simp
      with n2 show ?thesis
        using po6 pr5 by simp
    qed
  qed
  have q7: "\<forall>i<?n. i \<notin> (\<lambda>x. snd (snd x)) ` set (tr1 @ tr2) \<longrightarrow>
              promises s6 ! (?P + i) = delivered out"
  proof (intro allI impI)
    fix i assume i: "i < ?n" and ni: "i \<notin> (\<lambda>x. snd (snd x)) ` set (tr1 @ tr2)"
    then have "?P + i \<in> set ?L2"
      by (force simp add: mem2)
    with d6 show "promises s6 ! (?P + i) = delivered out"
      by blast
  qed
  have q8: "\<forall>q<?P. promises s6 ! q = promises s ! q"
  proof (intro allI impI)
    fix q assume q: "q < ?P"
    then have n2: "q \<notin> set ?L2" and n3: "q \<notin> ?pid tr2" and n1: "q \<notin> ?pid tr1"
      by (auto simp add: mem2)
    from po6 n2 have "promises s6 ! q = promises s5 ! q"
      by blast
    also from po5 n3 have "\<dots> = promises s4 ! q"
      by blast
    also have "\<dots> = promises s2 ! q"
      by (simp add: e4)
    also from po2 n1 have "\<dots> = promises s1 ! q"
      by blast
    also from q have "\<dots> = promises s ! q"
      by (simp add: p1 nth_append)
    finally show "promises s6 ! q = promises s ! q" .
  qed
  have q9: "tr1 @ tr2 = [] \<longrightarrow> requestCounter s6 b = None \<and> requestSignals s6 b = None"
    using ne by (simp add: cn6 g6 filter_empty_conv) 
  from q1 q2 q3 q4 q5 q6 q7 q8 q9 show ?thesis
    by (intro exI [of _ s6]) simp
qed

subsection \<open>Coalescing\<close>

text \<open>
  A signature \<open>b\<close> that is idle (no entry in the tables, nobody listening for it on
  \<open>window\<close>) receives a burst of calls of one url and one set of options; the callers
  may bring different signals or none and may be any time apart; the timer does not fire
  in between and nobody cancels. When the last timer fires and the \<open>fetch\<close> it starts
  settles with a response or with an error that is not an \<open>AbortError\<close>, that \<open>fetch\<close>
  is the only one the burst has caused, every caller of the burst holds that outcome,
  nothing was thrown, and the entry of \<open>b\<close> is gone again.
\<close>

lemma idle_burst_coalesces:
  assumes "requestSignals s b = None" and "requestCounter s b = None"
    and "requestPayload s b = None" and "b = hash ''otherOptions'' u p"
    and "\<forall>x\<in>set (thenListeners s). snd x \<noteq> b"
    and "\<forall>x\<in>set (catchListeners s). snd x \<noteq> b"
    and "cs \<noteq> []"
    and "\<forall>e. out = Failure e \<longrightarrow> ename e \<noteq> ''AbortError''"
  shows "\<exists>s'. run hash (joins u p cs
                     @ [Advance 500, TimerFire (length (timers s) + length cs),
                        Settle (length (fetches s)) out]) s = Some s'
     \<and> fetches s' = fetches s @
          [\<lparr>f_url = u, f_options = Some p, f_signal = BatchSignal (length (controllers s)),
            f_sink = ToBatch b, f_done = True\<rparr>]
     \<and> length (promises s') = length (promises s) + length cs
     \<and> (\<forall>i<length cs. promises s' ! (length (promises s) + i) = delivered out)
     \<and> (\<forall>q<length (promises s). promises s' ! q = promises s ! q)
     \<and> uncaught s' = uncaught s
     \<and> requestCounter s' b = None \<and> requestSignals s' b = None"
proof -
  have d: "distinct (map fst ([] @ [] :: (nat \<times> jserror \<times> nat) list))"
    by simp
  have o: "\<forall>x\<in>set ([] @ [] :: (nat \<times> jserror \<times> nat) list). signals s (fst x) = None
                \<and> (\<forall>y\<in>set (abortListeners s). fst y \<noteq> fst x)
                \<and> snd (snd x) < length cs
                \<and> (\<forall>j<length cs. snd (cs ! j) = Some (fst x) \<longleftrightarrow> j = snd (snd x))"
    by simp
  have l: "length ([] @ [] :: (nat \<times> jserror \<times> nat) list) < length cs"
    using assms(7) by simp
  from batch_run [where hash = hash and u = u and p = p and ?tr1.0 = "[]" and ?tr2.0 = "[]",
      OF assms(1-7) d o l assms(8)]
  have "\<exists>s'. run hash (joins u p cs
                     @ [Advance 500, TimerFire (length (timers s) + length cs),
                        Settle (length (fetches s)) out]) s = Some s'
     \<and> fetches s' = fetches s @
          [\<lparr>f_url = u, f_options = Some p, f_signal = BatchSignal (length (controllers s)),
            f_sink = ToBatch b, f_done = True\<rparr>]
     \<and> controllers s' = controllers s @ [False]
     \<and> uncaught s' = uncaught s
     \<and> length (promises s') = length (promises s) + length cs
     \<and> (\<forall>i<length cs. promises s' ! (length (promises s) + i) = delivered out)
     \<and> (\<forall>q<length (promises s). promises s' ! q = promises s ! q)
     \<and> requestCounter s' b = None \<and> requestSignals s' b = None"
    by simp
  then show ?thesis
    by blast
qed

lemma idle_burst_coalesces_example:
  "map_option (\<lambda>s. (promises s, map f_url (fetches s), map f_done (fetches s), uncaught s,
                    requestCounter s ''otherOptions:/a:GET''))
     (run demoHash (joins ''/a'' ''GET'' [(0, None), (100, Some 0), (50, None)]
                    @ [Advance 500, TimerFire 3, Settle 0 (Response 7)])
          (init :: (string, nat) state))
   = Some ([Resolved 7, Resolved 7, Resolved 7], [''/a''], [True], [], None)"
proof -
  let ?cs = "[(0, None), (100, Some 0), (50, None)] :: (nat \<times> nat option) list"
  let ?b = "demoHash ''otherOptions'' ''/a'' ''GET''"
  have h: "requestSignals (init :: (string, nat) state) ?b = None"
    "requestCounter (init :: (string, nat) state) ?b = None"
    "requestPayload (init :: (string, nat) state) ?b = None"
    "\<forall>x\<in>set (thenListeners (init :: (string, nat) state)). snd x \<noteq> ?b"
    "\<forall>x\<in>set (catchListeners (init :: (string, nat) state)). snd x \<noteq> ?b"
    by (simp_all add: init_def)
  have c: "?cs \<noteq> []" by simp
  have o: "\<forall>e. (Response 7 :: nat outcome) = Failure e \<longrightarrow> ename e \<noteq> ''AbortError''"
    by simp
  from idle_burst_coalesces [where hash = demoHash and u = "''/a''" and p = "''GET''"
      and s = "init :: (string, nat) state" and cs = ?cs and out = "Response 7",
      OF h(1-3) refl h(4,5) c o]
  obtain s' where
    r: "run demoHash (joins ''/a'' ''GET'' ?cs
                     @ [Advance 500, TimerFire (length (timers (init :: (string, nat) state)) + length ?cs),
                        Settle (length (fetches (init :: (string, nat) state))) (Response 7)])
          (init :: (string, nat) state) = Some s'"
    and f: "fetches s' = fetches (init :: (string, nat) state) @
          [\<lparr>f_url = ''/a'', f_options = Some ''GET'',
            f_signal = BatchSignal (length (controllers (init :: (string, nat) state))),
            f_sink = ToBatch ?b, f_done = True\<rparr>]"
    and n: "length (promises s') = length (promises (init :: (string, nat) state)) + length ?cs"
    and p: "\<forall>i<length ?cs. promises s' ! (length (promises (init :: (string, nat) state)) + i)
              = delivered (Response 7)"
    and u: "uncaught s' = uncaught (init :: (string, nat) state)"
    and k: "requestCounter s' ?b = None"
    by blast
  have ev: "[Advance 500, TimerFire (length (timers (init :: (string, nat) state)) + length ?cs),
             Settle (length (fetches (init :: (string, nat) state))) (Response (7::nat))]
            = ([Advance 500, TimerFire 3, Settle 0 (Response 7)] :: (string, nat) event list)"
    by (simp add: init_def)
  have n3: "length (promises s') = 3"
    using n by (simp add: init_def)
  from p have "promises s' ! 0 = Resolved 7" "promises s' ! Suc 0 = Resolved 7"
    "promises s' ! Suc (Suc 0) = Resolved 7"
    by (simp_all add: init_def delivered_def)
  with n3 have pr: "promises s' = [Resolved 7, Resolved 7, Resolved 7]"
    by (simp add: list_eq_iff_nth_eq less_Suc_eq numeral_3_eq_3)
  have b: "?b = ''otherOptions:/a:GET''"
    by (simp add: demoHash_def)
  have r2: "run demoHash (joins ''/a'' ''GET'' ?cs @ [Advance 500, TimerFire 3, Settle 0 (Response 7)])
              (init :: (string, nat) state) = Some s'"
    using r unfolding ev .
  have f2: "map f_url (fetches s') = [''/a'']" "map f_done (fetches s') = [True]"
    using f by (simp_all add: init_def)
  have u2: "uncaught s' = []"
    using u by (simp add: init_def)
  have k2: "requestCounter s' ''otherOptions:/a:GET'' = None"
    using k b by simp
  from r2 pr f2 u2 k2 show ?thesis
    by simp
qed

text \<open>
  C1. The claim: every group of calls of one signature made before the timer fires causes
  exactly one \<open>fetch\<close>, and each caller of the group is settled with its outcome. This
  holds from an idle signature with no listener left over (\<open>idle_burst_coalesces\<close>) and
  can fail after an earlier batch of the same signature. First run: one call is served by a
  response and keeps its \<open>batchFetchCatch\<close> listener; a burst of two follows and its one
  \<open>fetch\<close> fails. The stale listener and the listener of the first caller of the burst
  bring \<open>processed\<close> to 2 of 2 and the entry is unregistered; the listener of the second
  caller finds no counter and throws a \<open>TypeError\<close>, so its promise stays pending.
  Second run: in a batch of two one caller cancels and the other is served, so the entry
  is never unregistered and \<open>requestSignals\<close> keeps the controller; each of the two
  calls that follow takes the early return of \<open>batchFetch\<close> and makes a \<open>fetch\<close> of its
  own, and no timer is armed for them.
\<close>

theorem coalescing_fails_after_earlier_batch:
  "map_option (\<lambda>s. (promises s, uncaught s, map f_sink (fetches s), map f_done (fetches s)))
     (run demoHash
        [Call ''/a'' get, Advance 500, TimerFire 1, Settle 0 (Response (7::nat)),
         Call ''/a'' get, Call ''/a'' get, Advance 500, TimerFire 3,
         Settle 1 (Failure (JSError ''TypeError'' ''Failed to fetch''))] init)
   = Some ([Resolved 7, Rejected (JSError ''TypeError'' ''Failed to fetch''), Pending],
           [typeError],
           [ToBatch ''otherOptions:/a:GET'', ToBatch ''otherOptions:/a:GET''], [True, True])
   \<and> map_option
       (\<lambda>s. (promises s, map f_sink (fetches s), map f_done (fetches s), map armed (timers s),
              uncaught s))
       (run demoHash
          [Call ''/a'' (getWith 0), Call ''/a'' get, Abort 0 abortError, Advance 500,
           TimerFire 2, Settle 0 (Response (7::nat)), Call ''/a'' get, Call ''/a'' get] init)
     = Some ([Rejected abortError, Resolved 7, Pending, Pending],
             [ToBatch ''otherOptions:/a:GET'', ToPromise 2, ToPromise 3], [True, False, False],
             [False, False], [])"
  by code_simp

subsection \<open>Partial cancellation\<close>

text \<open>
  A burst of calls on an idle signature, of which some callers cancel, before the
  timer fires (\<open>ks1\<close>) or while the request is in flight (\<open>ks2\<close>), and at least one
  does not. Each signal that aborts has not aborted before, has no older listener, and
  is the signal of exactly one caller of the burst. Then the timer still fires, the one
  \<open>fetch\<close> is made and settles, the controller of the batch is never aborted, nothing
  is thrown; each caller that cancelled is rejected with the reason of its own signal,
  every other caller holds the outcome of the \<open>fetch\<close>, and no other promise changes.
\<close>

lemma idle_partial_cancel:
  assumes "requestSignals s b = None" and "requestCounter s b = None"
    and "requestPayload s b = None" and "b = hash ''otherOptions'' u p"
    and "\<forall>x\<in>set (thenListeners s). snd x \<noteq> b"
    and "\<forall>x\<in>set (catchListeners s). snd x \<noteq> b"
    and "distinct (map fst (ks1 @ ks2))"
    and "\<forall>g\<in>fst ` set (ks1 @ ks2). signals s g = None
           \<and> (\<forall>y\<in>set (abortListeners s). fst y \<noteq> g)
           \<and> (\<exists>!i. i < length cs \<and> snd (cs ! i) = Some g)"
    and "length (ks1 @ ks2) < length cs"
    and "\<forall>e. out = Failure e \<longrightarrow> ename e \<noteq> ''AbortError''"
  shows "\<exists>s'. run hash (joins u p cs @ cancels ks1
                     @ [Advance 500, TimerFire (length (timers s) + length cs)]
                     @ cancels ks2 @ [Settle (length (fetches s)) out]) s = Some s'
     \<and> fetches s' = fetches s @
          [\<lparr>f_url = u, f_options = Some p, f_signal = BatchSignal (length (controllers s)),
            f_sink = ToBatch b, f_done = True\<rparr>]
     \<and> controllers s' = controllers s @ [False]
     \<and> uncaught s' = uncaught s
     \<and> length (promises s') = length (promises s) + length cs
     \<and> (\<forall>i<length cs. promises s' ! (length (promises s) + i)
           = (case snd (cs ! i) of
                None \<Rightarrow> delivered out
              | Some g \<Rightarrow> (case map_of (ks1 @ ks2) g of
                            None \<Rightarrow> delivered out | Some e \<Rightarrow> Rejected e)))
     \<and> (\<forall>q<length (promises s). promises s' ! q = promises s ! q)"
proof -
  let ?own = "\<lambda>g i. i < length cs \<and> snd (cs ! i) = Some g"
  let ?who = "\<lambda>g. THE i. ?own g i"
  let ?tr = "\<lambda>ks :: (nat \<times> jserror) list. map (\<lambda>k. (fst k, snd k, ?who (fst k))) ks"
  have who: "\<And>g. g \<in> fst ` set (ks1 @ ks2) \<Longrightarrow> ?own g (?who g)"
  proof -
    fix g assume "g \<in> fst ` set (ks1 @ ks2)"
    with assms(8) have "\<exists>!i. ?own g i" by blast
    then show "?own g (?who g)" by (rule theI')
  qed
  have only: "\<And>g j. g \<in> fst ` set (ks1 @ ks2) \<Longrightarrow> ?own g j \<Longrightarrow> j = ?who g"
  proof -
    fix g j assume "g \<in> fst ` set (ks1 @ ks2)" and j: "?own g j"
    with assms(8) have "\<exists>!i. ?own g i" by blast
    from the1_equality [OF this j] show "j = ?who g" by simp
  qed
  have ev: "\<And>ks. map (\<lambda>x. Abort (fst x) (fst (snd x))) (?tr ks) = cancels ks"
    by (simp add: cancels_def comp_def)
  have set_tr: "set (?tr ks1 @ ?tr ks2) = (\<lambda>k. (fst k, snd k, ?who (fst k))) ` set (ks1 @ ks2)"
    by auto
  have d: "distinct (map fst (?tr ks1 @ ?tr ks2))"
    using assms(7) by (simp add: comp_def)
  have o: "\<forall>x\<in>set (?tr ks1 @ ?tr ks2). signals s (fst x) = None
                \<and> (\<forall>y\<in>set (abortListeners s). fst y \<noteq> fst x)
                \<and> snd (snd x) < length cs
                \<and> (\<forall>j<length cs. snd (cs ! j) = Some (fst x) \<longleftrightarrow> j = snd (snd x))"
  proof
    fix x assume "x \<in> set (?tr ks1 @ ?tr ks2)"
    then obtain k where k: "k \<in> set (ks1 @ ks2)" and x: "x = (fst k, snd k, ?who (fst k))"
      unfolding set_tr by blast
    from k have g: "fst k \<in> fst ` set (ks1 @ ks2)" by (rule imageI)
    with assms(8) have 1: "signals s (fst k) = None"
      and 2: "\<forall>y\<in>set (abortListeners s). fst y \<noteq> fst k" by blast+
    from who [OF g] have 3: "?who (fst k) < length cs"
      and 4: "snd (cs ! ?who (fst k)) = Some (fst k)" by blast+
    have 5: "\<forall>j<length cs. snd (cs ! j) = Some (fst k) \<longleftrightarrow> j = ?who (fst k)"
    proof (intro allI impI iffI)
      fix j assume "j < length cs" and "snd (cs ! j) = Some (fst k)"
      then have "?own (fst k) j" by blast
      with g show "j = ?who (fst k)" by (rule only)
    next
      fix j assume "j = ?who (fst k)"
      with 4 show "snd (cs ! j) = Some (fst k)" by simp
    qed
    from 1 2 3 5 show "signals s (fst x) = None
                \<and> (\<forall>y\<in>set (abortListeners s). fst y \<noteq> fst x)
                \<and> snd (snd x) < length cs
                \<and> (\<forall>j<length cs. snd (cs ! j) = Some (fst x) \<longleftrightarrow> j = snd (snd x))"
      unfolding x by simp
  qed
  have l: "length (?tr ks1 @ ?tr ks2) < length cs"
    using assms(9) by simp
  have ne: "cs \<noteq> []"
    using assms(9) by auto
  from batch_run [where hash = hash and u = u and p = p and ?tr1.0 = "?tr ks1" and ?tr2.0 = "?tr ks2",
      OF assms(1-6) ne d o l assms(10)]
  obtain s' where
    r: "run hash (joins u p cs @ map (\<lambda>x. Abort (fst x) (fst (snd x))) (?tr ks1)
                     @ [Advance 500, TimerFire (length (timers s) + length cs)]
                     @ map (\<lambda>x. Abort (fst x) (fst (snd x))) (?tr ks2)
                     @ [Settle (length (fetches s)) out]) s = Some s'"
    and f: "fetches s' = fetches s @
          [\<lparr>f_url = u, f_options = Some p, f_signal = BatchSignal (length (controllers s)),
            f_sink = ToBatch b, f_done = True\<rparr>]"
    and c: "controllers s' = controllers s @ [False]"
    and un: "uncaught s' = uncaught s"
    and len: "length (promises s') = length (promises s) + length cs"
    and rej: "\<forall>x\<in>set (?tr ks1 @ ?tr ks2).
           promises s' ! (length (promises s) + snd (snd x)) = Rejected (fst (snd x))"
    and del: "\<forall>i<length cs. i \<notin> (\<lambda>x. snd (snd x)) ` set (?tr ks1 @ ?tr ks2) \<longrightarrow>
           promises s' ! (length (promises s) + i) = delivered out"
    and old: "\<forall>q<length (promises s). promises s' ! q = promises s ! q"
    by blast
  have r': "run hash (joins u p cs @ cancels ks1
                     @ [Advance 500, TimerFire (length (timers s) + length cs)]
                     @ cancels ks2 @ [Settle (length (fetches s)) out]) s = Some s'"
    using r unfolding ev .
  have idx: "\<And>i. i \<in> (\<lambda>x. snd (snd x)) ` set (?tr ks1 @ ?tr ks2)
               \<Longrightarrow> \<exists>g\<in>fst ` set (ks1 @ ks2). snd (cs ! i) = Some g"
  proof -
    fix i assume "i \<in> (\<lambda>x. snd (snd x)) ` set (?tr ks1 @ ?tr ks2)"
    then have "i \<in> (\<lambda>k. ?who (fst k)) ` set (ks1 @ ks2)"
      unfolding set_tr image_image by simp
    then obtain k where k: "k \<in> set (ks1 @ ks2)" and i: "i = ?who (fst k)"
      by (rule imageE)
    from k have g: "fst k \<in> fst ` set (ks1 @ ks2)" by (rule imageI)
    from who [OF g] i have "snd (cs ! i) = Some (fst k)" by simp
    with g show "\<exists>g\<in>fst ` set (ks1 @ ks2). snd (cs ! i) = Some g" by blast
  qed
  have each: "\<forall>i<length cs. promises s' ! (length (promises s) + i)
           = (case snd (cs ! i) of
                None \<Rightarrow> delivered out
              | Some g \<Rightarrow> (case map_of (ks1 @ ks2) g of
                            None \<Rightarrow> delivered out | Some e \<Rightarrow> Rejected e))"
  proof (intro allI impI)
    fix i assume i: "i < length cs"
    show "promises s' ! (length (promises s) + i)
           = (case snd (cs ! i) of
                None \<Rightarrow> delivered out
              | Some g \<Rightarrow> (case map_of (ks1 @ ks2) g of
                            None \<Rightarrow> delivered out | Some e \<Rightarrow> Rejected e))"
    proof (cases "snd (cs ! i)")
      case None
      note sg = this
      with idx [of i] have "i \<notin> (\<lambda>x. snd (snd x)) ` set (?tr ks1 @ ?tr ks2)"
        by auto
      with del i have pd: "promises s' ! (length (promises s) + i) = delivered out"
        by blast
      show ?thesis
        by (simp only: sg option.case pd)
    next
      case (Some g)
      note sg = this
      show ?thesis
      proof (cases "map_of (ks1 @ ks2) g")
        case None
        note mn = this
        then have "g \<notin> fst ` set (ks1 @ ks2)"
          by (simp add: map_of_eq_None_iff image_Un)
        with idx [of i] sg have "i \<notin> (\<lambda>x. snd (snd x)) ` set (?tr ks1 @ ?tr ks2)"
          by auto
        with del i have pd: "promises s' ! (length (promises s) + i) = delivered out"
          by blast
        show ?thesis
          by (simp only: sg mn option.case pd)
      next
        case (Some e)
        note ms = this
        then have k: "(g, e) \<in> set (ks1 @ ks2)"
          by (rule map_of_SomeD)
        then have g: "g \<in> fst ` set (ks1 @ ks2)"
          by (rule rev_image_eqI) simp
        from i sg have "?own g i" by blast
        with g have w: "i = ?who g" by (rule only)
        from k have "(g, e, ?who g) \<in> set (?tr ks1 @ ?tr ks2)"
          unfolding set_tr by (rule rev_image_eqI) simp
        with rej have "promises s' ! (length (promises s) + snd (snd (g, e, ?who g)))
                         = Rejected (fst (snd (g, e, ?who g)))"
          by blast
        then have pd: "promises s' ! (length (promises s) + i) = Rejected e"
          using w by simp
        show ?thesis
          by (simp only: sg ms option.case pd)
      qed
    qed
  qed
  from r' f c un len each old show ?thesis
    by blast
qed

lemma idle_partial_cancel_example:
  "map_option (\<lambda>s. (promises s, controllers s, map f_done (fetches s), uncaught s))
     (run demoHash (joins ''/a'' ''GET'' [(0, Some 0), (100, None), (50, Some 1)]
                    @ cancels [(0, abortError)]
                    @ [Advance 500, TimerFire 3]
                    @ cancels [(1, JSError ''AbortError'' ''too late'')]
                    @ [Settle 0 (Response 7)])
          (init :: (string, nat) state))
   = Some ([Rejected abortError, Resolved 7, Rejected (JSError ''AbortError'' ''too late'')],
           [False], [True], [])"
proof -
  let ?cs = "[(0, Some 0), (100, None), (50, Some 1)] :: (nat \<times> nat option) list"
  let ?k1 = "[(0, abortError)] :: (nat \<times> jserror) list"
  let ?k2 = "[(1, JSError ''AbortError'' ''too late'')] :: (nat \<times> jserror) list"
  let ?b = "demoHash ''otherOptions'' ''/a'' ''GET''"
  have h: "requestSignals (init :: (string, nat) state) ?b = None"
    "requestCounter (init :: (string, nat) state) ?b = None"
    "requestPayload (init :: (string, nat) state) ?b = None"
    "\<forall>x\<in>set (thenListeners (init :: (string, nat) state)). snd x \<noteq> ?b"
    "\<forall>x\<in>set (catchListeners (init :: (string, nat) state)). snd x \<noteq> ?b"
    by (simp_all add: init_def)
  have d: "distinct (map fst (?k1 @ ?k2))"
    by simp
  have u0: "\<exists>!i. i < length ?cs \<and> snd (?cs ! i) = Some 0"
  proof (rule ex1I [of _ 0])
    show "0 < length ?cs \<and> snd (?cs ! 0) = Some 0" by simp
  next
    fix i assume "i < length ?cs \<and> snd (?cs ! i) = Some 0"
    then show "i = 0"
      by (cases i) (auto simp add: less_Suc_eq nth_Cons')
  qed
  have u1: "\<exists>!i. i < length ?cs \<and> snd (?cs ! i) = Some 1"
  proof (rule ex1I [of _ 2])
    show "2 < length ?cs \<and> snd (?cs ! 2) = Some 1" by simp
  next
    fix i assume "i < length ?cs \<and> snd (?cs ! i) = Some 1"
    then show "i = 2"
      by (auto simp add: less_Suc_eq nth_Cons' split: if_splits)
  qed
  have o: "\<forall>g\<in>fst ` set (?k1 @ ?k2). signals (init :: (string, nat) state) g = None
           \<and> (\<forall>y\<in>set (abortListeners (init :: (string, nat) state)). fst y \<noteq> g)
           \<and> (\<exists>!i. i < length ?cs \<and> snd (?cs ! i) = Some g)"
    using u0 u1 by (simp add: init_def)
  have l: "length (?k1 @ ?k2) < length ?cs"
    by simp
  have w: "\<forall>e. (Response 7 :: nat outcome) = Failure e \<longrightarrow> ename e \<noteq> ''AbortError''"
    by simp
  from idle_partial_cancel [where hash = demoHash and u = "''/a''" and p = "''GET''"
      and s = "init :: (string, nat) state" and cs = ?cs and ?ks1.0 = ?k1 and ?ks2.0 = ?k2
      and out = "Response 7", OF h(1-3) refl h(4,5) d o l w]
  obtain s' where
    r: "run demoHash (joins ''/a'' ''GET'' ?cs @ cancels ?k1
                     @ [Advance 500, TimerFire (length (timers (init :: (string, nat) state)) + length ?cs)]
                     @ cancels ?k2
                     @ [Settle (length (fetches (init :: (string, nat) state))) (Response 7)])
          (init :: (string, nat) state) = Some s'"
    and f: "fetches s' = fetches (init :: (string, nat) state) @
          [\<lparr>f_url = ''/a'', f_options = Some ''GET'',
            f_signal = BatchSignal (length (controllers (init :: (string, nat) state))),
            f_sink = ToBatch ?b, f_done = True\<rparr>]"
    and c: "controllers s' = controllers (init :: (string, nat) state) @ [False]"
    and u: "uncaught s' = uncaught (init :: (string, nat) state)"
    and n: "length (promises s') = length (promises (init :: (string, nat) state)) + length ?cs"
    and p: "\<forall>i<length ?cs. promises s' ! (length (promises (init :: (string, nat) state)) + i)
           = (case snd (?cs ! i) of
                None \<Rightarrow> delivered (Response 7)
              | Some g \<Rightarrow> (case map_of (?k1 @ ?k2) g of
                            None \<Rightarrow> delivered (Response 7) | Some e \<Rightarrow> Rejected e))"
    by blast
  have t: "length (timers (init :: (string, nat) state)) + length ?cs = 3"
    "length (fetches (init :: (string, nat) state)) = 0"
    by (simp_all add: init_def)
  have r2: "run demoHash (joins ''/a'' ''GET'' ?cs @ cancels ?k1 @ [Advance 500, TimerFire 3]
                     @ cancels ?k2 @ [Settle 0 (Response 7)])
              (init :: (string, nat) state) = Some s'"
    using r unfolding t .
  have n3: "length (promises s') = 3"
    using n by (simp add: init_def)
  from p have "promises s' ! 0 = Rejected abortError" "promises s' ! Suc 0 = Resolved 7"
    "promises s' ! Suc (Suc 0) = Rejected (JSError ''AbortError'' ''too late'')"
    by (simp_all add: init_def delivered_def)
  with n3 have pr: "promises s' = [Rejected abortError, Resolved 7,
                                   Rejected (JSError ''AbortError'' ''too late'')]"
    by (simp add: list_eq_iff_nth_eq less_Suc_eq numeral_3_eq_3)
  have f2: "map f_done (fetches s') = [True]"
    using f by (simp add: init_def)
  have c2: "controllers s' = [False]"
    using c by (simp add: init_def)
  have u2: "uncaught s' = []"
    using u by (simp add: init_def)
  from r2 pr f2 c2 u2 show ?thesis
    by simp
qed

text \<open>
  C4. The claim: in a batch of at least two callers, a cancellation by some but not all of
  them leaves the timer and the shared \<open>fetch\<close> alone, and each caller that did not cancel
  receives the outcome. This holds from an idle signature when each signal that aborts is
  fresh and belongs to one caller (\<open>idle_partial_cancel\<close>) and can fail otherwise. First run:
  caller 0 is served by a response, and its abort listener is never removed. Caller 1
  of the next batch passes the same signal, caller 2 joins without one. When the signal
  aborts, the old listener and the listener of caller 1 both count: \<open>aborted\<close> reaches 2 of
  2, the timer is cleared and the entry unregistered. Caller 2 has not cancelled, yet no
  timer is armed any more (it cannot fire: second run), no \<open>fetch\<close> is made for the batch
  and its promise stays pending. Third run: two callers served by a response leave two
  \<open>batchFetchCatch\<close> listeners; of the next batch of three one caller cancels through a
  fresh signal and the \<open>fetch\<close> fails. The two stale listeners and the first remaining
  caller bring \<open>processed\<close> to 3 of 3 and the entry is unregistered; the listener of the
  last caller throws a \<open>TypeError\<close> and its promise stays pending.
\<close>

theorem partial_cancel_reaches_siblings:
  "map_option
     (\<lambda>s. (promises s, map armed (timers s), length (fetches s),
            requestCounter s ''otherOptions:/a:GET'', uncaught s))
     (run demoHash
        [Call ''/a'' (getWith 0), Advance 500, TimerFire 1, Settle 0 (Response (7::nat)),
         Call ''/a'' (getWith 0), Call ''/a'' get, Abort 0 abortError, Advance 500] init)
   = Some ([Resolved 7, Rejected abortError, Pending], [False, False, False], 1, None, [])
   \<and> run demoHash
        [Call ''/a'' (getWith 0), Advance 500, TimerFire 1, Settle 0 (Response (7::nat)),
         Call ''/a'' (getWith 0), Call ''/a'' get, Abort 0 abortError, Advance 500,
         TimerFire 3] init = None
   \<and> map_option (\<lambda>s. (promises s, uncaught s, controllers s, map f_done (fetches s)))
       (run demoHash
          [Call ''/a'' get, Call ''/a'' get, Advance 500, TimerFire 2, Settle 0 (Response (7::nat)),
           Call ''/a'' (getWith 5), Call ''/a'' get, Call ''/a'' get, Abort 5 abortError,
           Advance 500, TimerFire 5,
           Settle 1 (Failure (JSError ''TypeError'' ''Failed to fetch''))] init)
     = Some ([Resolved 7, Resolved 7, Rejected abortError,
              Rejected (JSError ''TypeError'' ''Failed to fetch''), Pending],
             [typeError], [False, False], [True, True])"
  by code_simp

end
